theory Spec2Isabelle
  imports Complex_Main
begin

section \<open>Region-of-interest construction (ms_feature_validation/lcms.py)\<close>

text \<open>
  A shallow embedding of the trace-construction engine of \<^verbatim>\<open>lcms.py\<close>: the class
  \<^verbatim>\<open>_RoiProcessor\<close> (constructor, \<^verbatim>\<open>add\<close>, \<^verbatim>\<open>append_to_roi\<close>, \<^verbatim>\<open>extend\<close>,
  \<^verbatim>\<open>flag_as_completed\<close>), the matcher \<^verbatim>\<open>_match_mz\<close>, the finalizer
  \<^verbatim>\<open>tmp_roi_to_roi\<close> and the driver \<^verbatim>\<open>make_roi\<close>.

  Conventions of the embedding.
  \<^item> A one-dimensional numpy array is a list. A \<^verbatim>\<open>float64\<close> is a \<open>real\<close>: rounding is not
    modelled, and the not-a-number sentinel of a finished ROI is \<open>None\<close> in a list of
    \<open>real option\<close>.
  \<^item> Every \<^verbatim>\<open>raise\<close> and every exception of an indexing operation is a value
    \<open>Inl e\<close> of the result type \<open>py_error + 'a\<close>; no exception is caught anywhere in the
    source, so the first one ends the call.
  \<^item> The mutable object \<^verbatim>\<open>self\<close> is a record that each method takes and returns.
\<close>

subsection \<open>Data model\<close>

datatype py_error = ValueError | IndexError | KeyError | TypeError | AssertionError

text \<open>An array as the constructor receives it: its shape and its elements in order.\<close>

record ndarray =
  shape :: "nat list"
  items :: "real list"

text \<open>\<^verbatim>\<open>TempRoi = namedtuple("TempRoi", ["mz", "sp", "scan"])\<close>\<close>

record TempRoi =
  tmp_mz :: "real list"
  tmp_sp :: "real list"
  tmp_scan :: "nat list"

definition make_empty_temp_roi :: TempRoi where
  "make_empty_temp_roi = \<lparr>tmp_mz = [], tmp_sp = [], tmp_scan = []\<rparr>"

text \<open>
  \<^verbatim>\<open>Roi\<close>, a subclass of \<^verbatim>\<open>Chromatogram\<close>: the fields both constructors set
  (\<^verbatim>\<open>peaks\<close> is \<^verbatim>\<open>None\<close> at construction and is left out).
\<close>

record Roi =
  spint :: "real option list"
  roi_mz :: "real option list"
  roi_rt :: "real list"
  first_scan :: nat
  roi_mode :: string
  roi_start :: nat
  roi_end :: nat

text \<open>
  \<^verbatim>\<open>Chromatogram.__init__\<close> followed by the two assignments of \<^verbatim>\<open>Roi.__init__\<close>.
\<close>

definition Roi_init ::
  "real option list \<Rightarrow> real option list \<Rightarrow> real list \<Rightarrow> nat \<Rightarrow> string option \<Rightarrow> py_error + Roi"
where
  "Roi_init sp_arr mz_arr rt_arr fs md =
     (case md of
        None \<Rightarrow> Inr \<lparr>spint = sp_arr, roi_mz = mz_arr, roi_rt = rt_arr, first_scan = fs,
                     roi_mode = ''uplc'', roi_start = 0, roi_end = length rt_arr\<rparr>
      | Some m \<Rightarrow>
          if m \<in> set [''uplc'', ''hplc'']
          then Inr \<lparr>spint = sp_arr, roi_mz = mz_arr, roi_rt = rt_arr, first_scan = fs,
                     roi_mode = m, roi_start = 0, roi_end = length rt_arr\<rparr>
          else Inl ValueError)"

text \<open>
  A reduce function is either a name or a callable. A callable is a total function on
  lists of reals; a name that the constructor does not resolve stays a string, and
  calling it is a \<^verbatim>\<open>TypeError\<close>.
\<close>

datatype reducer = Named string | Callable "real list \<Rightarrow> real"

definition np_mean :: "real list \<Rightarrow> real" where
  "np_mean xs = sum_list xs / real (length xs)"

definition np_sum :: "real list \<Rightarrow> real" where
  "np_sum xs = sum_list xs"

definition call_reducer :: "reducer \<Rightarrow> real list \<Rightarrow> py_error + real" where
  "call_reducer r xs = (case r of Callable f \<Rightarrow> Inr (f xs) | Named s \<Rightarrow> Inl TypeError)"

text \<open>The attributes of \<^verbatim>\<open>_RoiProcessor\<close>.\<close>

record RoiProcessor =
  mz_reduce_fn :: reducer
  spint_reduce_fn :: reducer
  mz_mean :: "real list"
  roi_index :: "nat list"
  n_missing :: "int list"
  max_intensity :: "real list"
  length_arr :: "int list"
  index :: nat
  temp_roi_dict :: "nat \<rightharpoonup> TempRoi"
  roi :: "Roi list"
  min_intensity :: real
  max_missing :: int
  min_length :: int
  tolerance :: real
  multiple_match :: string
  mode :: "string option"

text \<open>
  The experiment \<^verbatim>\<open>msexp\<close> is the list of its spectra, each with its retention time,
  m/z values and intensities (\<^verbatim>\<open>getRT\<close>, \<^verbatim>\<open>get_peaks\<close>).
\<close>

record spectrum =
  getRT :: real
  peaks_mz :: "real list"
  peaks_int :: "real list"

subsection \<open>The constructor\<close>

definition RoiProcessor_init ::
  "ndarray \<Rightarrow> int \<Rightarrow> int \<Rightarrow> real \<Rightarrow> real \<Rightarrow> string \<Rightarrow> reducer \<Rightarrow> reducer \<Rightarrow> string option
     \<Rightarrow> py_error + RoiProcessor"
where
  "RoiProcessor_init mz_seed max_missing_arg min_length_arg min_intensity_arg tolerance_arg
       multiple_match_arg mz_reduce sp_reduce mode_arg =
     (if length (shape mz_seed) \<noteq> 1 then Inl ValueError
      else if multiple_match_arg \<notin> set [''closest'', ''reduce''] then Inl ValueError
      else
        let mzr = (case mz_reduce of
                     Named n \<Rightarrow> if n = ''mean'' then Callable np_mean else mz_reduce
                   | Callable f \<Rightarrow> mz_reduce);
            spr = (case sp_reduce of
                     Named n \<Rightarrow> if n = ''mean'' then Callable np_mean
                               else if n = ''sum'' then Callable np_sum
                               else sp_reduce
                   | Callable f \<Rightarrow> sp_reduce);
            ridx = [0..<length (items mz_seed)]
        in Inr \<lparr>mz_reduce_fn = mzr,
                spint_reduce_fn = spr,
                mz_mean = items mz_seed,
                roi_index = ridx,
                n_missing = map (\<lambda>_. 0) (items mz_seed),
                max_intensity = map (\<lambda>_. 0) (items mz_seed),
                length_arr = map (\<lambda>_. 0) (items mz_seed),
                index = 0,
                temp_roi_dict = map_of (map (\<lambda>x. (x, make_empty_temp_roi)) ridx),
                roi = [],
                min_intensity = min_intensity_arg,
                max_missing = max_missing_arg,
                min_length = min_length_arg,
                tolerance = tolerance_arg,
                multiple_match = multiple_match_arg,
                mode = mode_arg\<rparr>)"

subsection \<open>Array operations of numpy used by the engine\<close>

text \<open>\<^verbatim>\<open>xs[mask]\<close> with a boolean mask: the elements at the positions that are true.\<close>

definition bool_index :: "bool list \<Rightarrow> 'a list \<Rightarrow> 'a list" where
  "bool_index msk xs = map snd (filter fst (zip msk xs))"

text \<open>\<^verbatim>\<open>np.where(mask)[0]\<close>: the positions that are true, ascending.\<close>

definition np_where :: "bool list \<Rightarrow> nat list" where
  "np_where msk = bool_index msk [0..<length msk]"

text \<open>\<^verbatim>\<open>xs[idx]\<close> with an integer array, all indices in range.\<close>

definition gather :: "'a list \<Rightarrow> nat list \<Rightarrow> 'a list" where
  "gather xs idx = map (\<lambda>i. xs ! i) idx"

text \<open>
  \<^verbatim>\<open>xs[idx] = vals\<close> with an integer array: the assignments in order, a later one
  overwriting an earlier one at the same index.
\<close>

definition scatter :: "'a list \<Rightarrow> nat list \<Rightarrow> 'a list \<Rightarrow> 'a list" where
  "scatter xs idx vals = fold (\<lambda>(i, v) ys. ys[i := v]) (zip idx vals) xs"

text \<open>\<^verbatim>\<open>xs[mask] = vals\<close> with a boolean mask: the values fill the true positions in order.\<close>

fun mask_assign :: "'a list \<Rightarrow> bool list \<Rightarrow> 'a list \<Rightarrow> 'a list" where
  "mask_assign (x # xs) (b # bs) vals =
     (if b then (case vals of [] \<Rightarrow> x # mask_assign xs bs [] | v # vs \<Rightarrow> v # mask_assign xs bs vs)
      else x # mask_assign xs bs vals)"
| "mask_assign xs _ _ = xs"

text \<open>\<^verbatim>\<open>np.argmin\<close>: the first position of the least element.\<close>

fun np_argmin :: "real list \<Rightarrow> nat" where
  "np_argmin [] = 0"
| "np_argmin [x] = 0"
| "np_argmin (x # y # ys) =
     (let j = np_argmin (y # ys) in if x \<le> (y # ys) ! j then 0 else Suc j)"

text \<open>
  \<^verbatim>\<open>np.argsort\<close>: the positions of the array in ascending order of their elements.
  Equal elements are kept in their order here; numpy's default sort promises no order
  among them, and nothing below depends on it.
\<close>

definition np_argsort :: "real list \<Rightarrow> nat list" where
  "np_argsort xs = sort_key (\<lambda>i. xs ! i) [0..<length xs]"

text \<open>\<^verbatim>\<open>np.diff\<close>: the differences of neighbours.\<close>

definition np_diff :: "real list \<Rightarrow> real list" where
  "np_diff xs = map2 (\<lambda>b a. b - a) (tl xs) xs"

text \<open>
  \<^verbatim>\<open>np.unique(xs, return_index=True, return_counts=True)\<close>: the distinct values
  ascending, for each the position of its first occurrence and the number of its
  occurrences.
\<close>

fun first_occurrence :: "'a \<Rightarrow> 'a list \<Rightarrow> nat" where
  "first_occurrence v [] = 0"
| "first_occurrence v (x # xs) = (if x = v then 0 else Suc (first_occurrence v xs))"

definition np_unique :: "nat list \<Rightarrow> nat list \<times> nat list \<times> nat list" where
  "np_unique xs =
     (let u = sort (remdups xs)
      in (u, map (\<lambda>v. first_occurrence v xs) u, map (\<lambda>v. count_list xs v) u))"

subsection \<open>The matcher\<close>

text \<open>
  \<^verbatim>\<open>find_closest\<close> is imported from the module \<^verbatim>\<open>utils\<close>, whose source is not part of
  the files at hand. The matcher takes it as a parameter \<open>fc\<close>: a function from the
  traces' means and the scan's m/z values to one trace position for each peak, or an
  exception.
\<close>

type_synonym closest_fn = "real list \<Rightarrow> real list \<Rightarrow> py_error + nat list"

text \<open>
  The loop of the \<^verbatim>\<open>closest\<close> policy over the traces that have several peaks: for each
  the position (among the in-range peaks) of the first occurrence \<open>ix\<close> and the number
  \<open>cnt\<close> of contending peaks. It returns \<^verbatim>\<open>rm_index\<close>, \<^verbatim>\<open>mz_replace\<close> and
  \<^verbatim>\<open>spint_replace\<close>.
\<close>

fun closest_loop ::
  "real list \<Rightarrow> real list \<Rightarrow> real list \<Rightarrow> (nat \<times> nat \<times> nat) list
     \<Rightarrow> py_error + (nat list \<times> real list \<times> real list)"
where
  "closest_loop dmz_m mz_m sp_m [] = Inr ([], [], [])"
| "closest_loop dmz_m mz_m sp_m ((first_ind, ix, cnt) # rest) =
     (let sl = take cnt (drop ix dmz_m)
      in if sl = [] then Inl ValueError
         else
           let closest = np_argmin sl + ix
           in if length mz_m \<le> closest \<or> length sp_m \<le> closest then Inl IndexError
              else
                (case closest_loop dmz_m mz_m sp_m rest of
                   Inl e \<Rightarrow> Inl e
                 | Inr (rm_index, mz_replace, spint_replace) \<Rightarrow>
                     Inr (filter (\<lambda>j. j \<noteq> closest) [ix..<ix + cnt] @ rm_index,
                          mz_m ! closest # mz_replace,
                          sp_m ! closest # spint_replace)))"

text \<open>The loop of the \<^verbatim>\<open>reduce\<close> policy; it updates \<^verbatim>\<open>mz_match\<close> and \<^verbatim>\<open>sp_match\<close>.\<close>

fun reduce_loop ::
  "reducer \<Rightarrow> reducer \<Rightarrow> real list \<Rightarrow> real list \<Rightarrow> (nat \<times> nat \<times> nat) list
     \<Rightarrow> real list \<Rightarrow> real list \<Rightarrow> py_error + (real list \<times> real list)"
where
  "reduce_loop mzr spr mz_m sp_m [] mz_match sp_match = Inr (mz_match, sp_match)"
| "reduce_loop mzr spr mz_m sp_m ((first_ind, ix, cnt) # rest) mz_match sp_match =
     (case call_reducer mzr (take cnt (drop ix mz_m)) of
        Inl e \<Rightarrow> Inl e
      | Inr a \<Rightarrow>
          (case call_reducer spr (take cnt (drop ix sp_m)) of
             Inl e \<Rightarrow> Inl e
           | Inr b \<Rightarrow>
               reduce_loop mzr spr mz_m sp_m rest
                 (mz_match[first_ind := a]) (sp_match[first_ind := b])))"

text \<open>
  \<^verbatim>\<open>_match_mz\<close>. The result of \<open>fc\<close> indexes \<^verbatim>\<open>mz1\<close> and is subtracted from
  \<^verbatim>\<open>mz2\<close>, so it has one in-range position for each peak or the call raises; the mask
  made from \<^verbatim>\<open>mz2\<close> indexes \<^verbatim>\<open>sp2\<close>, so both have the same length or the call raises.
  The positions in \<^verbatim>\<open>rm_index\<close> are below the number of in-range peaks, so the
  assignment \<^verbatim>\<open>no_match_mask[rm_index] = True\<close> is always in range.
\<close>

definition match_mz ::
  "closest_fn \<Rightarrow> real list \<Rightarrow> real list \<Rightarrow> real list \<Rightarrow> real \<Rightarrow> string \<Rightarrow> reducer \<Rightarrow> reducer
     \<Rightarrow> py_error + (nat list \<times> real list \<times> real list \<times> real list \<times> real list)"
where
  "match_mz fc mz1 mz2 sp2 tol md mzr spr =
     (case fc mz1 mz2 of
        Inl e \<Rightarrow> Inl e
      | Inr closest_index \<Rightarrow>
          if length closest_index \<noteq> length mz2 then Inl ValueError
          else if \<exists>k \<in> set closest_index. length mz1 \<le> k then Inl IndexError
          else if length sp2 \<noteq> length mz2 then Inl IndexError
          else
            let dmz = map2 (\<lambda>k m. \<bar>mz1 ! k - m\<bar>) closest_index mz2;
                match_mask = map (\<lambda>d. d \<le> tol) dmz;
                no_match_mask = map Not match_mask;
                match_index = bool_index match_mask closest_index;
                (unique, first_index, count_index) = np_unique match_index;
                sp_match = gather (bool_index match_mask sp2) first_index;
                mz_match = gather (bool_index match_mask mz2) first_index;
                multiple_match_mask = map (\<lambda>c. 1 < c) count_index;
                first_index' = bool_index multiple_match_mask first_index
            in if first_index' \<noteq> [] then
                 let first_index_index = np_where multiple_match_mask;
                     count_index' = bool_index multiple_match_mask count_index;
                     iterator = zip first_index_index (zip first_index' count_index')
                 in if md = ''closest'' then
                      (case closest_loop (bool_index match_mask dmz) (bool_index match_mask mz2)
                              (bool_index match_mask sp2) iterator of
                         Inl e \<Rightarrow> Inl e
                       | Inr (rm_index, mz_replace, spint_replace) \<Rightarrow>
                           let no_match_mask' = scatter no_match_mask rm_index (map (\<lambda>_. True) rm_index)
                           in Inr (unique,
                                   scatter mz_match first_index_index mz_replace,
                                   scatter sp_match first_index_index spint_replace,
                                   bool_index no_match_mask' mz2,
                                   bool_index no_match_mask' sp2))
                    else if md = ''reduce'' then
                      (case reduce_loop mzr spr (bool_index match_mask mz2)
                              (bool_index match_mask sp2) iterator mz_match sp_match of
                         Inl e \<Rightarrow> Inl e
                       | Inr (mz_match', sp_match') \<Rightarrow>
                           Inr (unique, mz_match', sp_match',
                                bool_index no_match_mask mz2, bool_index no_match_mask sp2))
                    else Inl ValueError
               else Inr (unique, mz_match, sp_match,
                         bool_index no_match_mask mz2, bool_index no_match_mask sp2))"

text \<open>
  Modelled from the spec: \<^verbatim>\<open>find_closest\<close> of the module \<^verbatim>\<open>utils\<close>, which is not among
  the source files. The spec says: for every incoming peak, find its nearest active trace
  over the sorted array of means. Here it is the first position at the least distance.
  The spec does not say what happens without any trace; this model then answers
  position 0 for every peak, which the matcher rejects as out of range. It is used
  only to evaluate the engine on concrete scans; the theorems hold for every \<open>fc\<close>.
\<close>

definition find_closest :: closest_fn where
  "find_closest x xq = Inr (map (\<lambda>q. np_argmin (map (\<lambda>v. \<bar>v - q\<bar>) x)) xq)"

subsection \<open>The finalizer\<close>

text \<open>
  \<^verbatim>\<open>xs[idx] = vals\<close> where the indices are computed integers: a negative index counts
  from the end, an index outside \<open>[-n, n)\<close> raises \<^verbatim>\<open>IndexError\<close>, and values that
  are neither as many as the indices nor a single value raise \<^verbatim>\<open>ValueError\<close>.
\<close>

definition np_put :: "'a list \<Rightarrow> int list \<Rightarrow> 'a list \<Rightarrow> py_error + 'a list" where
  "np_put xs idx vals =
     (if \<exists>i \<in> set idx. i < - int (length xs) \<or> int (length xs) \<le> i then Inl IndexError
      else if length vals \<noteq> length idx \<and> length vals \<noteq> 1 then Inl ValueError
      else
        let vals' = (if length vals = length idx then vals
                     else replicate (length idx) (hd vals));
            pos = map (\<lambda>i. nat (if i < 0 then i + int (length xs) else i)) idx
        in Inr (scatter xs pos vals'))"

text \<open>
  \<^verbatim>\<open>tmp_roi_to_roi\<close>. \<^verbatim>\<open>scan[0]\<close> of an empty list raises \<^verbatim>\<open>IndexError\<close>;
  \<^verbatim>\<open>np.ones(size)\<close> with a negative size raises \<^verbatim>\<open>ValueError\<close>; the slice
  \<^verbatim>\<open>rt[first_scan:(last_scan + 1)]\<close> is cut at the end of \<^verbatim>\<open>rt\<close>.
\<close>

definition tmp_roi_to_roi :: "TempRoi \<Rightarrow> real list \<Rightarrow> string option \<Rightarrow> py_error + Roi" where
  "tmp_roi_to_roi tmp_roi rt md =
     (case tmp_scan tmp_roi of
        [] \<Rightarrow> Inl IndexError
      | fs # _ \<Rightarrow>
          let last_scan = last (tmp_scan tmp_roi);
              size = int last_scan + 1 - int fs
          in if size < 0 then Inl ValueError
             else
               let mz_tmp = replicate (nat size) None;
                   spint_tmp = mz_tmp;
                   tmp_index = map (\<lambda>k. int k - int fs) (tmp_scan tmp_roi);
                   rt_tmp = take (last_scan + 1 - fs) (drop fs rt)
               in (case np_put mz_tmp tmp_index (map Some (tmp_mz tmp_roi)) of
                     Inl e \<Rightarrow> Inl e
                   | Inr mz_arr \<Rightarrow>
                       (case np_put spint_tmp tmp_index (map Some (tmp_sp tmp_roi)) of
                          Inl e \<Rightarrow> Inl e
                        | Inr sp_arr \<Rightarrow> Roi_init sp_arr mz_arr rt_tmp fs md)))"

subsection \<open>The methods of the processor\<close>

text \<open>
  The constructor gives the five arrays \<^verbatim>\<open>mz_mean\<close>, \<^verbatim>\<open>roi_index\<close>, \<^verbatim>\<open>n_missing\<close>,
  \<^verbatim>\<open>length\<close> and \<^verbatim>\<open>max_intensity\<close> the same length and every method keeps them so
  (\<open>same_length\<close> below); the methods read one array at the positions of another
  without a range check of their own.
\<close>

text \<open>
  \<^verbatim>\<open>extend\<close>. \<^verbatim>\<open>self.roi_index.max()\<close> of an empty array raises \<^verbatim>\<open>ValueError\<close>.
\<close>

definition extend :: "RoiProcessor \<Rightarrow> real list \<Rightarrow> real list \<Rightarrow> py_error + RoiProcessor" where
  "extend s mz sp =
     (if roi_index s = [] then Inl ValueError
      else
        let max_index = Max (set (roi_index s));
            new_indices = map (\<lambda>i. i + max_index + 1) [0..<length mz];
            mz_mean_tmp = mz_mean s @ mz;
            roi_index_tmp = roi_index s @ new_indices;
            sorted_index = np_argsort mz_mean_tmp;
            n_missing_tmp = n_missing s @ map (\<lambda>_. 0) new_indices;
            length_tmp = length_arr s @ map (\<lambda>_. 1) new_indices;
            max_int_tmp = max_intensity s @ map (\<lambda>_. 0) new_indices;
            d = fold (\<lambda>(k_index, k_mz, k_sp) m.
                        m(k_index \<mapsto> \<lparr>tmp_mz = [k_mz], tmp_sp = [k_sp], tmp_scan = [index s]\<rparr>))
                  (zip new_indices (zip mz sp)) (temp_roi_dict s)
        in Inr (s\<lparr>temp_roi_dict := d,
                  mz_mean := gather mz_mean_tmp sorted_index,
                  roi_index := gather roi_index_tmp sorted_index,
                  n_missing := gather n_missing_tmp sorted_index,
                  length_arr := gather length_tmp sorted_index,
                  max_intensity := gather max_int_tmp sorted_index\<rparr>))"

text \<open>
  The first loop of \<^verbatim>\<open>add\<close>: each matched peak is appended to the record of its trace.
  A missing key raises \<^verbatim>\<open>KeyError\<close>.
\<close>

fun append_samples ::
  "nat list \<Rightarrow> nat \<Rightarrow> (nat \<times> real \<times> real) list \<Rightarrow> (nat \<rightharpoonup> TempRoi)
     \<Rightarrow> py_error + (nat \<rightharpoonup> TempRoi)"
where
  "append_samples ridx ix [] d = Inr d"
| "append_samples ridx ix ((k, k_mz, k_sp) # rest) d =
     (if length ridx \<le> k then Inl IndexError
      else
        (case d (ridx ! k) of
           None \<Rightarrow> Inl KeyError
         | Some k_temp_roi \<Rightarrow>
             append_samples ridx ix rest
               (d(ridx ! k \<mapsto> k_temp_roi\<lparr>tmp_mz := tmp_mz k_temp_roi @ [k_mz],
                                          tmp_sp := tmp_sp k_temp_roi @ [k_sp],
                                          tmp_scan := tmp_scan k_temp_roi @ [ix]\<rparr>))))"

text \<open>\<^verbatim>\<open>add\<close>. The counts in \<^verbatim>\<open>length\<close> are never negative, so the divisor is positive.\<close>

definition add ::
  "closest_fn \<Rightarrow> RoiProcessor \<Rightarrow> real list \<Rightarrow> real list \<Rightarrow> bool \<Rightarrow> py_error + RoiProcessor"
where
  "add fc s mz sp targeted =
     (case match_mz fc (mz_mean s) mz sp (tolerance s) (multiple_match s)
             (mz_reduce_fn s) (spint_reduce_fn s) of
        Inl e \<Rightarrow> Inl e
      | Inr (match_index, mz_match, sp_match, mz_no_match, sp_no_match) \<Rightarrow>
          (case append_samples (roi_index s) (index s)
                  (zip match_index (zip mz_match sp_match)) (temp_roi_dict s) of
             Inl e \<Rightarrow> Inl e
           | Inr d \<Rightarrow>
               let updated_mean =
                     map2 (\<lambda>(m, l) z. (m * real_of_int l + z) / real_of_int (l + 1))
                       (zip (gather (mz_mean s) match_index) (gather (length_arr s) match_index))
                       mz_match;
                   s1 = s\<lparr>temp_roi_dict := d,
                          length_arr :=
                            scatter (length_arr s) match_index
                              (map (\<lambda>l. l + 1) (gather (length_arr s) match_index)),
                          n_missing :=
                            scatter (map (\<lambda>n. n + 1) (n_missing s)) match_index
                              (map (\<lambda>_. 0) match_index),
                          max_intensity :=
                            scatter (max_intensity s) match_index
                              (map2 max (gather (max_intensity s) match_index) sp_match)\<rparr>
               in if \<not> targeted then
                    (case extend (s1\<lparr>mz_mean := scatter (mz_mean s) match_index updated_mean\<rparr>)
                            mz_no_match sp_no_match of
                       Inl e \<Rightarrow> Inl e
                     | Inr s2 \<Rightarrow> Inr (s2\<lparr>index := index s2 + 1\<rparr>))
                  else Inr (s1\<lparr>index := index s1 + 1\<rparr>)))"

text \<open>
  The loop of \<^verbatim>\<open>append_to_roi\<close> over the completed positions: the record of the trace
  is popped from the dictionary and, when the trace is valid, finalized and appended to
  \<^verbatim>\<open>self.roi\<close>.
\<close>

fun completed_loop ::
  "nat list \<Rightarrow> bool list \<Rightarrow> real list \<Rightarrow> string option \<Rightarrow> nat list
     \<Rightarrow> (nat \<rightharpoonup> TempRoi) \<Rightarrow> Roi list \<Rightarrow> py_error + ((nat \<rightharpoonup> TempRoi) \<times> Roi list)"
where
  "completed_loop ridx is_valid_roi rt md [] d rs = Inr (d, rs)"
| "completed_loop ridx is_valid_roi rt md (ind # rest) d rs =
     (let roi_ind = ridx ! ind
      in (case d roi_ind of
            None \<Rightarrow> Inl KeyError
          | Some finished_roi \<Rightarrow>
              if is_valid_roi ! ind then
                (case tmp_roi_to_roi finished_roi rt md of
                   Inl e \<Rightarrow> Inl e
                 | Inr r \<Rightarrow>
                     completed_loop ridx is_valid_roi rt md rest (d(roi_ind := None)) (rs @ [r]))
              else completed_loop ridx is_valid_roi rt md rest (d(roi_ind := None)) rs))"

text \<open>\<^verbatim>\<open>xs[mask] = v\<close> with a single value \<open>v\<close>.\<close>

definition mask_fill :: "'a list \<Rightarrow> bool list \<Rightarrow> 'a \<Rightarrow> 'a list" where
  "mask_fill xs msk v = map2 (\<lambda>b x. if b then v else x) msk xs"

definition append_to_roi :: "RoiProcessor \<Rightarrow> real list \<Rightarrow> bool \<Rightarrow> py_error + RoiProcessor" where
  "append_to_roi s rt targeted =
     (let is_completed = map (\<lambda>n. max_missing s < n) (n_missing s);
          is_valid_roi = map2 (\<lambda>l m. min_length s \<le> l \<and> min_intensity s \<le> m)
                           (length_arr s) (max_intensity s);
          completed_index = np_where is_completed
      in (case completed_loop (roi_index s) is_valid_roi rt (mode s) completed_index
                 (temp_roi_dict s) (roi s) of
            Inl e \<Rightarrow> Inl e
          | Inr (d, rs) \<Rightarrow>
              if targeted then
                (if roi_index s = [] then Inl ValueError
                 else
                   let max_roi_ind = Max (set (roi_index s));
                       n_completed = length (filter (\<lambda>b. b) is_completed);
                       new_indices = [max_roi_ind + 1..<max_roi_ind + 1 + n_completed]
                   in Inr (s\<lparr>temp_roi_dict :=
                               d ++ map_of (map (\<lambda>k. (k, make_empty_temp_roi)) new_indices),
                             roi := rs,
                             n_missing := mask_fill (n_missing s) is_completed 0,
                             length_arr := mask_fill (length_arr s) is_completed 0,
                             max_intensity := mask_fill (max_intensity s) is_completed 0,
                             roi_index := mask_assign (roi_index s) is_completed new_indices\<rparr>))
              else
                Inr (s\<lparr>temp_roi_dict := d,
                       roi := rs,
                       mz_mean := bool_index (map Not is_completed) (mz_mean s),
                       n_missing := bool_index (map Not is_completed) (n_missing s),
                       length_arr := bool_index (map Not is_completed) (length_arr s),
                       roi_index := bool_index (map Not is_completed) (roi_index s),
                       max_intensity := bool_index (map Not is_completed) (max_intensity s)\<rparr>)))"

definition flag_as_completed :: "RoiProcessor \<Rightarrow> RoiProcessor" where
  "flag_as_completed s = s\<lparr>n_missing := map (\<lambda>_. max_missing s + 1) (n_missing s)\<rparr>"

subsection \<open>The driver\<close>

text \<open>
  Reading a spectrum outside the experiment is an error of the reader, here
  \<^verbatim>\<open>IndexError\<close>.
\<close>

definition getSpectrum :: "spectrum list \<Rightarrow> nat \<Rightarrow> py_error + spectrum" where
  "getSpectrum msexp k = (if k < length msexp then Inr (msexp ! k) else Inl IndexError)"

text \<open>
  The body of the loop of \<^verbatim>\<open>make_roi\<close> over the scans, with the array \<^verbatim>\<open>rt\<close> that it
  fills; the \<^verbatim>\<open>assert\<close> after each scan raises \<^verbatim>\<open>AssertionError\<close>.
\<close>

fun scan_loop ::
  "closest_fn \<Rightarrow> spectrum list \<Rightarrow> nat \<Rightarrow> bool \<Rightarrow> nat list \<Rightarrow> RoiProcessor \<Rightarrow> real list
     \<Rightarrow> py_error + (RoiProcessor \<times> real list)"
where
  "scan_loop fc msexp start targeted [] processor rt = Inr (processor, rt)"
| "scan_loop fc msexp start targeted (k_scan # ks) processor rt =
     (case getSpectrum msexp k_scan of
        Inl e \<Rightarrow> Inl e
      | Inr spc \<Rightarrow>
          let rt' = rt[k_scan - start := getRT spc]
          in (case add fc processor (peaks_mz spc) (peaks_int spc) targeted of
                Inl e \<Rightarrow> Inl e
              | Inr p1 \<Rightarrow>
                  (case append_to_roi p1 rt' targeted of
                     Inl e \<Rightarrow> Inl e
                   | Inr p2 \<Rightarrow>
                       if list_all (\<lambda>d. 0 \<le> d) (np_diff (mz_mean p2))
                       then scan_loop fc msexp start targeted ks p2 rt'
                       else Inl AssertionError)))"

text \<open>
  \<^verbatim>\<open>make_roi\<close>, up to the final state of the processor; \<^verbatim>\<open>np.zeros(size)\<close> with a
  negative size raises \<^verbatim>\<open>ValueError\<close>.
\<close>

definition make_roi_processor ::
  "closest_fn \<Rightarrow> spectrum list \<Rightarrow> real \<Rightarrow> int \<Rightarrow> int \<Rightarrow> real \<Rightarrow> string \<Rightarrow> ndarray option
     \<Rightarrow> nat option \<Rightarrow> nat option \<Rightarrow> reducer \<Rightarrow> reducer \<Rightarrow> string option
     \<Rightarrow> py_error + RoiProcessor"
where
  "make_roi_processor fc msexp tolerance_arg max_missing_arg min_length_arg min_intensity_arg
       multiple_match_arg targeted_mz start_arg end_arg mz_reduce sp_reduce mode_arg =
     (let start = (case start_arg of None \<Rightarrow> 0 | Some v \<Rightarrow> v);
          end = (case end_arg of None \<Rightarrow> length msexp | Some v \<Rightarrow> v)
      in (case (case targeted_mz of
                  None \<Rightarrow>
                    (case getSpectrum msexp start of
                       Inl e \<Rightarrow> Inl e
                     | Inr spc \<Rightarrow>
                         Inr (\<lparr>shape = [length (peaks_mz spc)], items = peaks_mz spc\<rparr>, False))
                | Some t \<Rightarrow> Inr (t, True)) of
            Inl e \<Rightarrow> Inl e
          | Inr (mz_seed, targeted) \<Rightarrow>
              if end < start then Inl ValueError
              else
                (case RoiProcessor_init mz_seed max_missing_arg min_length_arg min_intensity_arg
                        tolerance_arg multiple_match_arg mz_reduce sp_reduce mode_arg of
                   Inl e \<Rightarrow> Inl e
                 | Inr processor \<Rightarrow>
                     (case scan_loop fc msexp start targeted [start..<end] processor
                             (replicate (end - start) 0) of
                        Inl e \<Rightarrow> Inl e
                      | Inr (p, rt) \<Rightarrow> append_to_roi (flag_as_completed p) rt False))))"

definition make_roi ::
  "closest_fn \<Rightarrow> spectrum list \<Rightarrow> real \<Rightarrow> int \<Rightarrow> int \<Rightarrow> real \<Rightarrow> string \<Rightarrow> ndarray option
     \<Rightarrow> nat option \<Rightarrow> nat option \<Rightarrow> reducer \<Rightarrow> reducer \<Rightarrow> string option
     \<Rightarrow> py_error + Roi list"
where
  "make_roi fc msexp tolerance_arg max_missing_arg min_length_arg min_intensity_arg
       multiple_match_arg targeted_mz start_arg end_arg mz_reduce sp_reduce mode_arg =
     (case make_roi_processor fc msexp tolerance_arg max_missing_arg min_length_arg
             min_intensity_arg multiple_match_arg targeted_mz start_arg end_arg
             mz_reduce sp_reduce mode_arg of
        Inl e \<Rightarrow> Inl e
      | Inr p \<Rightarrow> Inr (roi p))"

subsection \<open>Notions used to state the properties\<close>

text \<open>The five parallel arrays of a processor have the same length.\<close>

definition same_length :: "RoiProcessor \<Rightarrow> bool" where
  "same_length s \<longleftrightarrow>
     length (roi_index s) = length (mz_mean s) \<and> length (n_missing s) = length (mz_mean s)
     \<and> length (max_intensity s) = length (mz_mean s)
     \<and> length (length_arr s) = length (mz_mean s)"

text \<open>
  The positions of the traces whose count of missing scans exceeds \<^verbatim>\<open>max_missing\<close>,
  the positions of the other traces, and the test of validity of the trace at a position.
\<close>

definition completed_positions :: "RoiProcessor \<Rightarrow> nat list" where
  "completed_positions s =
     filter (\<lambda>i. max_missing s < n_missing s ! i) [0..<length (n_missing s)]"

definition open_positions :: "RoiProcessor \<Rightarrow> nat list" where
  "open_positions s =
     filter (\<lambda>i. \<not> max_missing s < n_missing s ! i) [0..<length (n_missing s)]"

definition valid_trace :: "RoiProcessor \<Rightarrow> nat \<Rightarrow> bool" where
  "valid_trace s i \<longleftrightarrow> min_length s \<le> length_arr s ! i \<and> min_intensity s \<le> max_intensity s ! i"

subsection \<open>Example runs\<close>

text \<open>
  A processor with three seeds and \<^verbatim>\<open>max_missing = 0\<close>, \<^verbatim>\<open>min_length = 1\<close>,
  \<^verbatim>\<open>min_intensity = 15\<close>, \<^verbatim>\<open>tolerance = 0.005\<close>, and two scans: the first has a peak at
  every seed, the second only a peak near 300. The states after each call are named, in
  untargeted and in targeted mode. They serve as concrete inputs of the theorems below.
\<close>

definition example_seed :: ndarray where
  "example_seed = \<lparr>shape = [3], items = [100, 200, 300]\<rparr>"

definition example_processor :: RoiProcessor where
  "example_processor =
     projr (RoiProcessor_init example_seed 0 1 15 (5 / 1000) ''closest''
              (Named ''mean'') (Named ''sum'') None)"

definition example_spectra :: "spectrum list" where
  "example_spectra =
     [\<lparr>getRT = 1, peaks_mz = [100, 200, 300], peaks_int = [10, 20, 30]\<rparr>,
      \<lparr>getRT = 2, peaks_mz = [300001 / 1000], peaks_int = [30]\<rparr>]"

definition untargeted_add0 :: RoiProcessor where
  "untargeted_add0 = projr (add find_closest example_processor [100, 200, 300] [10, 20, 30] False)"

definition untargeted_pass0 :: RoiProcessor where
  "untargeted_pass0 = projr (append_to_roi untargeted_add0 [1, 0] False)"

definition untargeted_add1 :: RoiProcessor where
  "untargeted_add1 = projr (add find_closest untargeted_pass0 [300001 / 1000] [30] False)"

definition untargeted_pass1 :: RoiProcessor where
  "untargeted_pass1 = projr (append_to_roi untargeted_add1 [1, 2] False)"

definition targeted_add0 :: RoiProcessor where
  "targeted_add0 = projr (add find_closest example_processor [100, 200, 300] [10, 20, 30] True)"

definition targeted_pass0 :: RoiProcessor where
  "targeted_pass0 = projr (append_to_roi targeted_add0 [1, 0] True)"

definition targeted_add1 :: RoiProcessor where
  "targeted_add1 = projr (add find_closest targeted_pass0 [300001 / 1000] [30] True)"

definition targeted_pass1 :: RoiProcessor where
  "targeted_pass1 = projr (append_to_roi targeted_add1 [1, 2] True)"

text \<open>A processor in targeted mode whose target list is not ascending.\<close>

definition unsorted_processor :: RoiProcessor where
  "unsorted_processor =
     projr (RoiProcessor_init \<lparr>shape = [2], items = [200, 100]\<rparr> 0 1 15 (5 / 1000) ''closest''
              (Named ''mean'') (Named ''sum'') None)"

definition unsorted_add0 :: RoiProcessor where
  "unsorted_add0 = projr (add find_closest unsorted_processor [100, 200, 300] [10, 20, 30] True)"

definition unsorted_pass0 :: RoiProcessor where
  "unsorted_pass0 = projr (append_to_roi unsorted_add0 [1, 0] True)"

section \<open>Properties\<close>

subsection \<open>Facts about the array operations\<close>

lemma scatter_Nil [simp]: "scatter xs [] vals = xs" "scatter xs idx [] = xs"
  by (simp_all add: scatter_def)

lemma scatter_Cons [simp]: "scatter xs (i # idx) (v # vals) = scatter (xs[i := v]) idx vals"
  by (simp add: scatter_def)

lemma length_scatter [simp]: "length (scatter xs idx vals) = length xs"
proof (induction idx arbitrary: xs vals)
  case Nil
  then show ?case by simp
next
  case (Cons i idx)
  then show ?case by (cases vals) simp_all
qed

lemma nth_scatter_notin: "j \<notin> set idx \<Longrightarrow> scatter xs idx vals ! j = xs ! j"
proof (induction idx arbitrary: xs vals)
  case Nil
  then show ?case by simp
next
  case (Cons i idx)
  then show ?case by (cases vals) simp_all
qed

lemma nth_scatter_distinct:
  "distinct idx \<Longrightarrow> length vals = length idx \<Longrightarrow> i < length idx \<Longrightarrow> idx ! i < length xs
     \<Longrightarrow> scatter xs idx vals ! (idx ! i) = vals ! i"
proof (induction idx arbitrary: xs vals i)
  case Nil
  then show ?case by simp
next
  case (Cons a idx)
  then obtain v vs where vals: "vals = v # vs" by (cases vals) auto
  show ?case
  proof (cases i)
    case 0
    with Cons.prems vals show ?thesis by (simp add: nth_scatter_notin)
  next
    case (Suc k)
    with Cons.prems vals show ?thesis using Cons.IH [of vs k "xs[a := v]"] by simp
  qed
qed

lemma bool_index_Nil [simp]: "bool_index [] xs = []" "bool_index bs [] = []"
  by (simp_all add: bool_index_def)

lemma bool_index_Cons [simp]:
  "bool_index (b # bs) (x # xs) = (if b then x # bool_index bs xs else bool_index bs xs)"
  by (simp add: bool_index_def)

lemma bool_index_map_filter: "bool_index (map p xs) xs = filter p xs"
  by (induction xs) simp_all

lemma bool_index_map: "bool_index bs (map f xs) = map f (bool_index bs xs)"
proof (induction bs arbitrary: xs)
  case Nil
  then show ?case by simp
next
  case (Cons b bs)
  then show ?case by (cases xs) simp_all
qed

lemma set_bool_index: "set (bool_index bs xs) \<subseteq> set xs"
proof (induction bs arbitrary: xs)
  case Nil
  then show ?case by simp
next
  case (Cons b bs)
  then show ?case by (cases xs) auto
qed

lemma sorted_bool_index: "sorted xs \<Longrightarrow> sorted (bool_index bs xs)"
proof (induction bs arbitrary: xs)
  case Nil
  then show ?case by simp
next
  case (Cons b bs)
  show ?case
  proof (cases xs)
    case Nil
    then show ?thesis by simp
  next
    case (Cons y ys)
    with Cons.prems Cons.IH [of ys] set_bool_index [of bs ys] show ?thesis by auto
  qed
qed

lemma bool_index_conv:
  assumes "length xs = length bs"
  shows "bool_index bs xs = map (\<lambda>i. xs ! i) (filter (\<lambda>i. bs ! i) [0..<length bs])"
proof -
  have z: "zip bs xs = map (\<lambda>i. (bs ! i, xs ! i)) [0..<length bs]"
    by (rule nth_equalityI) (simp_all add: assms)
  show ?thesis
    unfolding bool_index_def z by (simp add: filter_map comp_def)
qed

lemma np_where_filter: "np_where bs = filter (\<lambda>i. bs ! i) [0..<length bs]"
proof -
  have "np_where bs = map (\<lambda>i. [0..<length bs] ! i) (filter (\<lambda>i. bs ! i) [0..<length bs])"
    unfolding np_where_def by (rule bool_index_conv) simp
  also have "\<dots> = map (\<lambda>i. i) (filter (\<lambda>i. bs ! i) [0..<length bs])"
    by (rule map_cong) auto
  finally show ?thesis by simp
qed

lemma bool_index_nth:
  "length xs = length bs \<Longrightarrow> bool_index bs xs = map (\<lambda>i. xs ! i) (np_where bs)"
  by (simp add: bool_index_conv np_where_filter)

lemma length_bool_index: "length xs = length ys \<Longrightarrow> length (bool_index bs xs) = length (bool_index bs ys)"
proof (induction bs arbitrary: xs ys)
  case Nil
  then show ?case by simp
next
  case (Cons b bs)
  then show ?case by (cases xs; cases ys) auto
qed

subsection \<open>Construction\<close>

text \<open>
  C9 (as the code has it). The constructor raises exactly when the seed array is not
  one-dimensional or the policy name is neither \<^verbatim>\<open>closest\<close> nor \<^verbatim>\<open>reduce\<close>; the
  exception is then a \<^verbatim>\<open>ValueError\<close> and no processor is returned. The tolerance is
  not examined: with a one-dimensional seed and a recognized policy the construction
  succeeds whatever the tolerance is.
\<close>

theorem RoiProcessor_init_raises_iff:
  "(isl (RoiProcessor_init mz_seed mm ml mi tol pol mzr spr md)
      \<longleftrightarrow> length (shape mz_seed) \<noteq> 1 \<or> (pol \<noteq> ''closest'' \<and> pol \<noteq> ''reduce''))
   \<and> (isl (RoiProcessor_init mz_seed mm ml mi tol pol mzr spr md)
      \<longrightarrow> RoiProcessor_init mz_seed mm ml mi tol pol mzr spr md = Inl ValueError)"
  by (auto simp: RoiProcessor_init_def Let_def)

text \<open>
  The theorem at a two-dimensional seed (an exception) and at a one-dimensional seed
  with the policy \<^verbatim>\<open>reduce\<close> and a negative tolerance (no exception).
\<close>

theorem RoiProcessor_init_raises_iff_witness:
  "RoiProcessor_init \<lparr>shape = [2, 2], items = [1, 2, 3, 4]\<rparr> 1 5 0 (5 / 1000) ''closest''
       (Named ''mean'') (Named ''sum'') None = Inl ValueError
   \<and> \<not> isl (RoiProcessor_init \<lparr>shape = [2], items = [100, 200]\<rparr> 1 5 0 (- 1) ''reduce''
              (Named ''mean'') (Named ''sum'') None)"
  using RoiProcessor_init_raises_iff [of "\<lparr>shape = [2, 2], items = [1, 2, 3, 4]\<rparr>" 1 5 0
      "5 / 1000" "''closest''" "Named ''mean''" "Named ''sum''" None]
    RoiProcessor_init_raises_iff [of "\<lparr>shape = [2], items = [100, 200]\<rparr>" 1 5 0
      "- 1" "''reduce''" "Named ''mean''" "Named ''sum''" None]
  by simp

text \<open>
  C9 as stated fails: with the tolerance 0, which is not strictly positive, a
  one-dimensional seed and the policy \<^verbatim>\<open>closest\<close>, the constructor raises nothing.
\<close>

theorem RoiProcessor_init_zero_tolerance_counterexample:
  "\<not> isl (RoiProcessor_init \<lparr>shape = [1], items = [100]\<rparr> 1 5 0 0 ''closest''
            (Named ''mean'') (Named ''sum'') None)"
  by (simp add: RoiProcessor_init_def)

subsection \<open>An empty set of active traces\<close>

lemma match_mz_no_traces: "mz2 \<noteq> [] \<Longrightarrow> isl (match_mz fc [] mz2 sp2 tol md mzr spr)"
  by (cases "fc [] mz2") (auto simp: match_mz_def)

text \<open>
  C10. Once no trace is active, \<^verbatim>\<open>add\<close> in untargeted mode on a scan with at least one
  peak raises an exception, whatever \<^verbatim>\<open>find_closest\<close> answers, so the engine cannot
  seed itself again; and \<^verbatim>\<open>extend\<close>, which spawns the new traces, raises
  \<^verbatim>\<open>ValueError\<close> (the maximum of the empty array of identities) whenever no trace is
  active.
\<close>

theorem add_without_active_traces_raises:
  "(mz_mean s = [] \<and> mz \<noteq> [] \<longrightarrow> isl (add fc s mz sp False))
   \<and> (roi_index s = [] \<longrightarrow> extend s mz sp = Inl ValueError)"
proof -
  have "isl (add fc s mz sp False)" if "mz_mean s = []" "mz \<noteq> []"
  proof -
    from that(2)
    have "isl (match_mz fc [] mz sp (tolerance s) (multiple_match s)
                 (mz_reduce_fn s) (spint_reduce_fn s))"
      by (rule match_mz_no_traces)
    then show ?thesis using that(1) by (auto simp: add_def isl_def)
  qed
  moreover have "extend s mz sp = Inl ValueError" if "roi_index s = []"
    using that by (simp add: extend_def)
  ultimately show ?thesis by blast
qed

text \<open>
  The theorem on a run: one seed trace at 100 with \<^verbatim>\<open>max_missing = 0\<close>, a scan without
  peaks, and the finalize pass that then removes the only trace. The next scan has one
  peak.
\<close>

theorem add_without_active_traces_raises_witness:
  "mz_mean (projr (append_to_roi (projr (add find_closest (projr (RoiProcessor_init
       \<lparr>shape = [1], items = [100]\<rparr> 0 1 0 (5 / 1000) ''closest'' (Named ''mean'')
       (Named ''sum'') None)) [] [] False)) [0] False)) = []
   \<and> isl (add find_closest (projr (append_to_roi (projr (add find_closest (projr
       (RoiProcessor_init \<lparr>shape = [1], items = [100]\<rparr> 0 1 0 (5 / 1000) ''closest''
       (Named ''mean'') (Named ''sum'') None)) [] [] False)) [0] False)) [100] [10] False)
   \<and> extend (projr (append_to_roi (projr (add find_closest (projr (RoiProcessor_init
       \<lparr>shape = [1], items = [100]\<rparr> 0 1 0 (5 / 1000) ''closest'' (Named ''mean'')
       (Named ''sum'') None)) [] [] False)) [0] False)) [100] [10] = Inl ValueError"
proof -
  let ?s = "projr (append_to_roi (projr (add find_closest (projr (RoiProcessor_init
       \<lparr>shape = [1], items = [100]\<rparr> 0 1 0 (5 / 1000) ''closest'' (Named ''mean'')
       (Named ''sum'') None)) [] [] False)) [0] False)"
  have m: "mz_mean ?s = []" by code_simp
  have r: "roi_index ?s = []" by code_simp
  show ?thesis
    using add_without_active_traces_raises [of ?s "[100]" find_closest "[10]"] m r
    by simp
qed

subsection \<open>The maximum intensity of a spawned trace\<close>

text \<open>
  C7 at a concrete scan. The processor with the single seed 100 receives, in untargeted
  mode, a scan with the single peak (200, 50), out of tolerance. The spawned trace has
  the identity 1, its record holds the sample of intensity 50 and its length is 1, but
  its \<^verbatim>\<open>max_intensity\<close> is 0.
\<close>

theorem extend_max_intensity_of_spawned_trace:
  "map_sum id (\<lambda>s. (roi_index s, length_arr s, max_intensity s, temp_roi_dict s 1))
     (add find_closest (projr (RoiProcessor_init \<lparr>shape = [1], items = [100]\<rparr> 1 5 0
        (5 / 1000) ''closest'' (Named ''mean'') (Named ''sum'') None)) [200] [50] False)
   = Inr ([0, 1], [0, 1], [0, 0], Some \<lparr>tmp_mz = [200], tmp_sp = [50], tmp_scan = [0]\<rparr>)"
  by code_simp

subsection \<open>The matcher on concrete scans\<close>

text \<open>
  C5 at a concrete scan. One trace at 100, tolerance 0.005, policy \<^verbatim>\<open>closest\<close>, and the
  peaks 99, 100.001 and 100.004 with the intensities 1, 10 and 20. The peak 100.001 is
  matched and is also in the unmatched output; the peak 100.004 is in neither.
\<close>

theorem match_mz_closest_not_a_partition:
  "match_mz find_closest [100] [99, 100001 / 1000, 100004 / 1000] [1, 10, 20] (5 / 1000)
     ''closest'' (Callable np_mean) (Callable np_sum)
   = Inr ([0], [100001 / 1000], [10], [99, 100001 / 1000], [1, 10])"
  by code_simp

subsection \<open>The finalizer\<close>

lemma np_put_in_range:
  assumes "\<forall>i \<in> set idx. 0 \<le> i \<and> i < int (length xs)" "length vals = length idx"
  shows "np_put xs idx vals = Inr (scatter xs (map nat idx) vals)"
proof -
  have m: "map (\<lambda>i. nat (if i < 0 then i + int (length xs) else i)) idx = map nat idx"
    by (rule map_cong) (use assms(1) in auto)
  have n: "\<not> (\<exists>i \<in> set idx. i < - int (length xs) \<or> int (length xs) \<le> i)"
    using assms(1) by force
  show ?thesis
    unfolding np_put_def Let_def m using n assms(2) by simp
qed

lemma Roi_init_valid_mode:
  "md \<in> {None, Some ''uplc'', Some ''hplc''} \<Longrightarrow>
   \<exists>m. Roi_init sp_arr mz_arr rt_arr fs md =
     Inr \<lparr>spint = sp_arr, roi_mz = mz_arr, roi_rt = rt_arr, first_scan = fs,
          roi_mode = m, roi_start = 0, roi_end = length rt_arr\<rparr>"
  by (auto simp: Roi_init_def)

lemma strict_sorted_bounds:
  assumes "sorted_wrt (<) (sc :: nat list)" "k \<in> set sc"
  shows "hd sc \<le> k \<and> k \<le> last sc"
proof -
  have s: "sorted sc" using assms(1) by (rule strict_sorted_imp_sorted)
  from assms(2) obtain i where i: "i < length sc" "sc ! i = k"
    by (auto simp: in_set_conv_nth)
  then have ne: "sc \<noteq> []" by auto
  have "sc ! 0 \<le> sc ! i" using s i(1) by (simp add: sorted_iff_nth_mono)
  moreover have "sc ! i \<le> sc ! (length sc - 1)"
    using s i(1) by (simp add: sorted_iff_nth_mono)
  ultimately show ?thesis using i(2) ne by (simp add: hd_conv_nth last_conv_nth)
qed


lemma tmp_roi_to_roi_nonempty:
  "tmp_scan t \<noteq> [] \<Longrightarrow>
   tmp_roi_to_roi t rt md =
     (if int (last (tmp_scan t)) + 1 - int (hd (tmp_scan t)) < 0 then Inl ValueError
      else
        (case np_put (replicate (nat (int (last (tmp_scan t)) + 1 - int (hd (tmp_scan t)))) None)
                (map (\<lambda>k. int k - int (hd (tmp_scan t))) (tmp_scan t)) (map Some (tmp_mz t)) of
           Inl e \<Rightarrow> Inl e
         | Inr mz_arr \<Rightarrow>
             (case np_put (replicate (nat (int (last (tmp_scan t)) + 1 - int (hd (tmp_scan t)))) None)
                     (map (\<lambda>k. int k - int (hd (tmp_scan t))) (tmp_scan t))
                     (map Some (tmp_sp t)) of
                Inl e \<Rightarrow> Inl e
              | Inr sp_arr \<Rightarrow>
                  Roi_init sp_arr mz_arr
                    (take (last (tmp_scan t) + 1 - hd (tmp_scan t)) (drop (hd (tmp_scan t)) rt))
                    (hd (tmp_scan t)) md)))"
  by (simp only: tmp_roi_to_roi_def Let_def list.case_eq_if if_False)

text \<open>
  C8. For a record whose scan list is not empty and strictly increasing (with one m/z
  and one intensity for each scan, and a mode that \<^verbatim>\<open>Chromatogram\<close> accepts) the
  finalizer returns a ROI: its m/z and intensity arrays have the length
  \<open>last_scan - first_scan + 1\<close>, hold the recorded values at the offset of each
  recorded scan and the sentinel at every other offset; its retention times are the
  slice \<^verbatim>\<open>rt[first_scan:last_scan + 1]\<close>, and \<^verbatim>\<open>first_scan\<close> is recorded.
\<close>

theorem tmp_roi_to_roi_dense:
  assumes ne: "tmp_scan t \<noteq> []"
    and inc: "sorted_wrt (<) (tmp_scan t)"
    and lmz: "length (tmp_mz t) = length (tmp_scan t)"
    and lsp: "length (tmp_sp t) = length (tmp_scan t)"
    and md: "md \<in> {None, Some ''uplc'', Some ''hplc''}"
  shows "\<exists>r. tmp_roi_to_roi t rt md = Inr r
    \<and> length (roi_mz r) = last (tmp_scan t) - hd (tmp_scan t) + 1
    \<and> length (spint r) = last (tmp_scan t) - hd (tmp_scan t) + 1
    \<and> (\<forall>i < length (tmp_scan t).
          roi_mz r ! (tmp_scan t ! i - hd (tmp_scan t)) = Some (tmp_mz t ! i)
        \<and> spint r ! (tmp_scan t ! i - hd (tmp_scan t)) = Some (tmp_sp t ! i))
    \<and> (\<forall>j < last (tmp_scan t) - hd (tmp_scan t) + 1.
          hd (tmp_scan t) + j \<notin> set (tmp_scan t) \<longrightarrow> roi_mz r ! j = None \<and> spint r ! j = None)
    \<and> roi_rt r = take (last (tmp_scan t) - hd (tmp_scan t) + 1) (drop (hd (tmp_scan t)) rt)
    \<and> first_scan r = hd (tmp_scan t)"
proof -
  let ?sc = "tmp_scan t"
  let ?fs = "hd ?sc"
  let ?ls = "last ?sc"
  let ?tmp_index = "map (\<lambda>k. int k - int ?fs) ?sc"
  define n where "n = ?ls - ?fs + 1"
  define pos where "pos = map (\<lambda>k. k - ?fs) ?sc"
  have bounds: "?fs \<le> k \<and> k \<le> ?ls" if "k \<in> set ?sc" for k
    using strict_sorted_bounds [of ?sc k] inc that by simp
  have fs_ls: "?fs \<le> ?ls"
    using bounds [of ?fs] ne by simp
  have size: "(int ?ls + 1 - int ?fs < 0) = False" "nat (int ?ls + 1 - int ?fs) = n"
    "?ls + 1 - ?fs = n"
    using fs_ls by (simp_all add: n_def)
  have idx_range: "\<forall>i \<in> set ?tmp_index. 0 \<le> i \<and> i < int (length (replicate n (None :: real option)))"
  proof
    fix i
    assume "i \<in> set ?tmp_index"
    then obtain k where k: "k \<in> set ?sc" "i = int k - int ?fs" by auto
    from bounds [OF k(1)] k(2) show "0 \<le> i \<and> i < int (length (replicate n (None :: real option)))"
      by (simp add: n_def)
  qed
  have nat_idx: "map nat ?tmp_index = pos"
    unfolding pos_def map_map by (rule map_cong) (use bounds in auto)
  have put: "np_put (replicate n None) ?tmp_index (map Some vs)
      = Inr (scatter (replicate n None) pos (map Some vs))"
    if "length vs = length ?sc" for vs :: "real list"
  proof -
    have "length (map Some vs) = length ?tmp_index" using that by simp
    from np_put_in_range [OF idx_range this] show ?thesis unfolding nat_idx .
  qed
  from Roi_init_valid_mode [OF md]
  obtain m where roi: "Roi_init (scatter (replicate n None) pos (map Some (tmp_sp t)))
        (scatter (replicate n None) pos (map Some (tmp_mz t))) (take n (drop ?fs rt)) ?fs md
      = Inr \<lparr>spint = scatter (replicate n None) pos (map Some (tmp_sp t)),
             roi_mz = scatter (replicate n None) pos (map Some (tmp_mz t)),
             roi_rt = take n (drop ?fs rt), first_scan = ?fs,
             roi_mode = m, roi_start = 0, roi_end = length (take n (drop ?fs rt))\<rparr>"
    by blast
  define r where "r = \<lparr>spint = scatter (replicate n None) pos (map Some (tmp_sp t)),
             roi_mz = scatter (replicate n None) pos (map Some (tmp_mz t)),
             roi_rt = take n (drop ?fs rt), first_scan = ?fs,
             roi_mode = m, roi_start = 0, roi_end = length (take n (drop ?fs rt))\<rparr>"
  have res: "tmp_roi_to_roi t rt md = Inr r"
    unfolding tmp_roi_to_roi_nonempty [OF ne] r_def
    by (simp only: size if_False put [OF lmz] put [OF lsp] sum.case roi)
  have dist: "distinct pos"
  proof -
    have "distinct ?sc" using inc by (simp add: strict_sorted_iff)
    moreover have "inj_on (\<lambda>k. k - ?fs) (set ?sc)"
    proof (rule inj_onI)
      fix x y
      assume "x \<in> set ?sc" "y \<in> set ?sc" "x - ?fs = y - ?fs"
      with bounds [of x] bounds [of y] show "x = y" by arith
    qed
    ultimately show ?thesis by (simp add: pos_def distinct_map)
  qed
  have lpos: "length pos = length ?sc" by (simp add: pos_def)
  have at: "scatter (replicate n None) pos (map Some vs) ! (?sc ! i - ?fs) = Some (vs ! i)"
    if "i < length ?sc" "length vs = length ?sc" for i and vs :: "real list"
  proof -
    have "pos ! i = ?sc ! i - ?fs" using that(1) by (simp add: pos_def)
    moreover have "?sc ! i - ?fs < ?ls - ?fs + 1"
      using that(1) bounds [of "?sc ! i"] by force
    then have "pos ! i < length (replicate n (None :: real option))"
      using that(1) by (simp add: pos_def n_def)
    ultimately show ?thesis
      using nth_scatter_distinct [OF dist, of "map Some vs" i "replicate n None"] that lpos
      by simp
  qed
  have off: "scatter (replicate n None) pos (map Some vs) ! j = None"
    if "j < n" "?fs + j \<notin> set ?sc" for j and vs :: "real list"
  proof -
    have "j \<notin> set pos"
    proof
      assume "j \<in> set pos"
      then obtain k where "k \<in> set ?sc" "j = k - ?fs" by (auto simp: pos_def)
      with bounds [of k] that(2) show False by simp
    qed
    then show ?thesis using that(1) by (simp add: nth_scatter_notin)
  qed
  have "length (roi_mz r) = n" "length (spint r) = n" by (simp_all add: r_def)
  moreover have "\<forall>i < length ?sc. roi_mz r ! (?sc ! i - ?fs) = Some (tmp_mz t ! i)
        \<and> spint r ! (?sc ! i - ?fs) = Some (tmp_sp t ! i)"
    using at lmz lsp by (simp add: r_def)
  moreover have "\<forall>j < n. ?fs + j \<notin> set ?sc \<longrightarrow> roi_mz r ! j = None \<and> spint r ! j = None"
    using off by (simp add: r_def)
  moreover have "roi_rt r = take n (drop ?fs rt)" "first_scan r = ?fs" by (simp_all add: r_def)
  ultimately show ?thesis
    using res unfolding n_def by blast
qed

text \<open>
  The theorem on a record with samples at the scans 1 and 3 and a gap at the scan 2.
\<close>

theorem tmp_roi_to_roi_dense_witness:
  "\<exists>r. tmp_roi_to_roi \<lparr>tmp_mz = [100, 201 / 2], tmp_sp = [10, 12], tmp_scan = [1, 3]\<rparr>
           [1 / 2, 1, 3 / 2, 2, 5 / 2] None = Inr r
    \<and> length (roi_mz r) = 3 \<and> length (spint r) = 3
    \<and> roi_mz r = [Some 100, None, Some (201 / 2)]
    \<and> spint r = [Some 10, None, Some 12]
    \<and> roi_rt r = [1, 3 / 2, 2] \<and> first_scan r = 1"
proof -
  let ?t = "\<lparr>tmp_mz = [100, 201 / 2], tmp_sp = [10, 12], tmp_scan = [1, 3]\<rparr>"
  have h: "tmp_scan ?t \<noteq> []" "sorted_wrt (<) (tmp_scan ?t)"
    "length (tmp_mz ?t) = length (tmp_scan ?t)" "length (tmp_sp ?t) = length (tmp_scan ?t)"
    "(None :: string option) \<in> {None, Some ''uplc'', Some ''hplc''}"
    by simp_all
  from tmp_roi_to_roi_dense [OF h, of "[1 / 2, 1, 3 / 2, 2, 5 / 2]"]
  obtain r where r: "tmp_roi_to_roi ?t [1 / 2, 1, 3 / 2, 2, 5 / 2] None = Inr r"
    by blast
  have e: "tmp_roi_to_roi ?t [1 / 2, 1, 3 / 2, 2, 5 / 2] None
      = Inr \<lparr>spint = [Some 10, None, Some 12], roi_mz = [Some 100, None, Some (201 / 2)],
             roi_rt = [1, 3 / 2, 2], first_scan = 1, roi_mode = ''uplc'', roi_start = 0,
             roi_end = 3\<rparr>"
    by code_simp
  show ?thesis using r e by simp
qed

subsection \<open>The finalize pass\<close>

lemma completed_loop_Inr:
  "completed_loop ridx valid rt md inds d rs = Inr (d', rs') \<Longrightarrow>
     distinct (map (\<lambda>i. ridx ! i) inds)
     \<and> (\<forall>i \<in> set inds. d (ridx ! i) \<noteq> None)
     \<and> d' = (\<lambda>k. if k \<in> (\<lambda>i. ridx ! i) ` set inds then None else d k)
     \<and> rs' = rs @ map (\<lambda>i. projr (tmp_roi_to_roi (the (d (ridx ! i))) rt md))
                    (filter (\<lambda>i. valid ! i) inds)
     \<and> (\<forall>i \<in> set inds. valid ! i \<longrightarrow> \<not> isl (tmp_roi_to_roi (the (d (ridx ! i))) rt md))"
proof (induction inds arbitrary: d rs)
  case Nil
  then show ?case by auto
next
  case (Cons ind rest)
  let ?k = "ridx ! ind"
  from Cons.prems obtain f where f: "d ?k = Some f"
    by (cases "d ?k") (simp_all add: Let_def)
  let ?d = "d(?k := None)"
  obtain rs1 where step: "completed_loop ridx valid rt md rest ?d rs1 = Inr (d', rs')"
    and rs1: "rs1 = (if valid ! ind then rs @ [projr (tmp_roi_to_roi f rt md)] else rs)"
    and ok: "valid ! ind \<longrightarrow> \<not> isl (tmp_roi_to_roi f rt md)"
    using Cons.prems f
    by (cases "valid ! ind"; cases "tmp_roi_to_roi f rt md") (simp_all add: Let_def)
  note ih = Cons.IH [OF step]
  have notin: "?k \<notin> (\<lambda>i. ridx ! i) ` set rest"
    using ih by auto
  have same: "?d (ridx ! i) = d (ridx ! i)" if "i \<in> set rest" for i
  proof -
    have "ridx ! i \<in> (\<lambda>i. ridx ! i) ` set rest" using that by (rule imageI)
    with notin have "ridx ! i \<noteq> ?k" by metis
    then show ?thesis by simp
  qed
  have 1: "distinct (map (\<lambda>i. ridx ! i) (ind # rest))"
    using ih notin by simp
  have 2: "\<forall>i \<in> set (ind # rest). d (ridx ! i) \<noteq> None"
    using ih f same by auto
  have 3: "d' = (\<lambda>k. if k \<in> (\<lambda>i. ridx ! i) ` set (ind # rest) then None else d k)"
    using ih by (auto simp: fun_eq_iff)
  have m: "map (\<lambda>i. projr (tmp_roi_to_roi (the (?d (ridx ! i))) rt md)) (filter (\<lambda>i. valid ! i) rest)
         = map (\<lambda>i. projr (tmp_roi_to_roi (the (d (ridx ! i))) rt md)) (filter (\<lambda>i. valid ! i) rest)"
    by (rule map_cong) (use same in auto)
  have 4: "rs' = rs @ map (\<lambda>i. projr (tmp_roi_to_roi (the (d (ridx ! i))) rt md))
                    (filter (\<lambda>i. valid ! i) (ind # rest))"
    using ih m rs1 f by simp
  have 5: "\<forall>i \<in> set (ind # rest). valid ! i \<longrightarrow> \<not> isl (tmp_roi_to_roi (the (d (ridx ! i))) rt md)"
    using ih ok f same by auto
  from 1 2 3 4 5 show ?case by blast
qed


lemma np_where_completed:
  "np_where (map (\<lambda>n. max_missing s < n) (n_missing s)) = completed_positions s"
  unfolding np_where_filter completed_positions_def
  by (rule filter_cong) auto

lemma bool_index_open:
  assumes "length xs = length (n_missing s)"
  shows "bool_index (map Not (map (\<lambda>n. max_missing s < n) (n_missing s))) xs
           = map (\<lambda>i. xs ! i) (open_positions s)"
proof -
  have "filter (\<lambda>i. map Not (map (\<lambda>n. max_missing s < n) (n_missing s)) ! i)
          [0..<length (map Not (map (\<lambda>n. max_missing s < n) (n_missing s)))]
        = open_positions s"
    unfolding open_positions_def by (rule filter_cong) auto
  then show ?thesis
    using bool_index_conv [of xs "map Not (map (\<lambda>n. max_missing s < n) (n_missing s))"] assms
    by simp
qed

lemma is_valid_roi_nth:
  assumes "same_length s" "i < length (n_missing s)"
  shows "map2 (\<lambda>l m. min_length s \<le> l \<and> min_intensity s \<le> m) (length_arr s) (max_intensity s) ! i
           = valid_trace s i"
  using assms by (simp add: same_length_def valid_trace_def)

lemma set_completed_positions: "i \<in> set (completed_positions s) \<Longrightarrow> i < length (n_missing s)"
  by (simp add: completed_positions_def)

lemma append_to_roi_cases:
  assumes "append_to_roi s rt targeted = Inr s'"
  obtains d rs where
    "completed_loop (roi_index s)
        (map2 (\<lambda>l m. min_length s \<le> l \<and> min_intensity s \<le> m) (length_arr s) (max_intensity s))
        rt (mode s) (completed_positions s) (temp_roi_dict s) (roi s) = Inr (d, rs)"
    and "targeted \<Longrightarrow> roi_index s \<noteq> []"
    and "targeted \<Longrightarrow> s' = s\<lparr>temp_roi_dict :=
             d ++ map_of (map (\<lambda>k. (k, make_empty_temp_roi))
                  [Max (set (roi_index s)) + 1..<
                   Max (set (roi_index s)) + 1
                     + length (filter (\<lambda>b. b) (map (\<lambda>n. max_missing s < n) (n_missing s)))]),
           roi := rs,
           n_missing := mask_fill (n_missing s) (map (\<lambda>n. max_missing s < n) (n_missing s)) 0,
           length_arr := mask_fill (length_arr s) (map (\<lambda>n. max_missing s < n) (n_missing s)) 0,
           max_intensity := mask_fill (max_intensity s) (map (\<lambda>n. max_missing s < n) (n_missing s)) 0,
           roi_index := mask_assign (roi_index s) (map (\<lambda>n. max_missing s < n) (n_missing s))
              [Max (set (roi_index s)) + 1..<
               Max (set (roi_index s)) + 1
                 + length (filter (\<lambda>b. b) (map (\<lambda>n. max_missing s < n) (n_missing s)))]\<rparr>"
    and "\<not> targeted \<Longrightarrow> s' = s\<lparr>temp_roi_dict := d,
           roi := rs,
           mz_mean := bool_index (map Not (map (\<lambda>n. max_missing s < n) (n_missing s))) (mz_mean s),
           n_missing := bool_index (map Not (map (\<lambda>n. max_missing s < n) (n_missing s))) (n_missing s),
           length_arr := bool_index (map Not (map (\<lambda>n. max_missing s < n) (n_missing s))) (length_arr s),
           roi_index := bool_index (map Not (map (\<lambda>n. max_missing s < n) (n_missing s))) (roi_index s),
           max_intensity := bool_index (map Not (map (\<lambda>n. max_missing s < n) (n_missing s))) (max_intensity s)\<rparr>"
proof -
  let ?loop = "completed_loop (roi_index s)
        (map2 (\<lambda>l m. min_length s \<le> l \<and> min_intensity s \<le> m) (length_arr s) (max_intensity s))
        rt (mode s) (completed_positions s) (temp_roi_dict s) (roi s)"
  from assms obtain d rs where l: "?loop = Inr (d, rs)"
    by (cases ?loop) (auto simp: append_to_roi_def Let_def np_where_completed)
  show ?thesis
  proof (rule that [OF l])
    show "roi_index s \<noteq> []" if targeted
      using assms l that by (auto simp: append_to_roi_def Let_def np_where_completed split: if_splits)
    show "s' = s\<lparr>temp_roi_dict :=
             d ++ map_of (map (\<lambda>k. (k, make_empty_temp_roi))
                  [Max (set (roi_index s)) + 1..<
                   Max (set (roi_index s)) + 1
                     + length (filter (\<lambda>b. b) (map (\<lambda>n. max_missing s < n) (n_missing s)))]),
           roi := rs,
           n_missing := mask_fill (n_missing s) (map (\<lambda>n. max_missing s < n) (n_missing s)) 0,
           length_arr := mask_fill (length_arr s) (map (\<lambda>n. max_missing s < n) (n_missing s)) 0,
           max_intensity := mask_fill (max_intensity s) (map (\<lambda>n. max_missing s < n) (n_missing s)) 0,
           roi_index := mask_assign (roi_index s) (map (\<lambda>n. max_missing s < n) (n_missing s))
              [Max (set (roi_index s)) + 1..<
               Max (set (roi_index s)) + 1
                 + length (filter (\<lambda>b. b) (map (\<lambda>n. max_missing s < n) (n_missing s)))]\<rparr>"
      if targeted
      using assms l that by (auto simp: append_to_roi_def Let_def np_where_completed split: if_splits)
    show "s' = s\<lparr>temp_roi_dict := d,
           roi := rs,
           mz_mean := bool_index (map Not (map (\<lambda>n. max_missing s < n) (n_missing s))) (mz_mean s),
           n_missing := bool_index (map Not (map (\<lambda>n. max_missing s < n) (n_missing s))) (n_missing s),
           length_arr := bool_index (map Not (map (\<lambda>n. max_missing s < n) (n_missing s))) (length_arr s),
           roi_index := bool_index (map Not (map (\<lambda>n. max_missing s < n) (n_missing s))) (roi_index s),
           max_intensity := bool_index (map Not (map (\<lambda>n. max_missing s < n) (n_missing s))) (max_intensity s)\<rparr>"
      if "\<not> targeted"
      using assms l that by (auto simp: append_to_roi_def Let_def np_where_completed)
  qed
qed


lemma fresh_keys_not_old:
  assumes "k \<in> set ridx"
  shows "map_of (map (\<lambda>k. (k, v)) [Max (set ridx) + 1..<Max (set ridx) + 1 + c]) k = None"
proof -
  have "k \<le> Max (set ridx)" using assms by simp
  then have "k \<notin> set [Max (set ridx) + 1..<Max (set ridx) + 1 + c]" by simp
  then show ?thesis by (simp add: map_of_eq_None_iff image_iff)
qed

lemma fresh_keys_map_add:
  assumes "k \<in> set ridx"
  shows "(d ++ map_of (map (\<lambda>k. (k, v)) [Max (set ridx) + 1..<Max (set ridx) + 1 + c])) k = d k"
proof -
  from fresh_keys_not_old [OF assms, of v c] show ?thesis
    unfolding map_add_def by (simp only: option.case)
qed

text \<open>
  C2. A finalize pass on a processor whose arrays have the same length: in untargeted
  mode the arrays keep exactly the traces whose count of missing scans does not exceed
  \<^verbatim>\<open>max_missing\<close>, in their order; in both modes the ROIs appended to \<^verbatim>\<open>self.roi\<close> are,
  in order, the finalized records of the completed traces that are valid (length at
  least \<^verbatim>\<open>min_length\<close> and maximum intensity at least \<^verbatim>\<open>min_intensity\<close>), each of which
  the finalizer accepts; the record of every completed trace, valid or not, leaves the
  dictionary, and the records of the other traces stay.
\<close>

theorem append_to_roi_closes_completed:
  assumes sl: "same_length s" and ok: "append_to_roi s rt targeted = Inr s'"
  shows "(\<not> targeted \<longrightarrow>
            mz_mean s' = map (\<lambda>i. mz_mean s ! i) (open_positions s)
          \<and> roi_index s' = map (\<lambda>i. roi_index s ! i) (open_positions s)
          \<and> n_missing s' = map (\<lambda>i. n_missing s ! i) (open_positions s)
          \<and> length_arr s' = map (\<lambda>i. length_arr s ! i) (open_positions s)
          \<and> max_intensity s' = map (\<lambda>i. max_intensity s ! i) (open_positions s))
    \<and> roi s' = roi s @ map (\<lambda>i. projr (tmp_roi_to_roi (the (temp_roi_dict s (roi_index s ! i)))
                                   rt (mode s)))
                        (filter (valid_trace s) (completed_positions s))
    \<and> (\<forall>i \<in> set (completed_positions s). valid_trace s i \<longrightarrow>
          \<not> isl (tmp_roi_to_roi (the (temp_roi_dict s (roi_index s ! i))) rt (mode s)))
    \<and> (\<forall>i \<in> set (completed_positions s). temp_roi_dict s' (roi_index s ! i) = None)
    \<and> (distinct (roi_index s) \<longrightarrow>
         (\<forall>i \<in> set (open_positions s).
            temp_roi_dict s' (roi_index s ! i) = temp_roi_dict s (roi_index s ! i)))"
proof -
  let ?valid = "map2 (\<lambda>l m. min_length s \<le> l \<and> min_intensity s \<le> m)
                  (length_arr s) (max_intensity s)"
  let ?C = "completed_positions s"
  from ok obtain d rs where
    loop: "completed_loop (roi_index s) ?valid rt (mode s) ?C (temp_roi_dict s) (roi s) = Inr (d, rs)"
    and ne: "targeted \<Longrightarrow> roi_index s \<noteq> []"
    and tg: "targeted \<Longrightarrow> temp_roi_dict s' =
               d ++ map_of (map (\<lambda>k. (k, make_empty_temp_roi))
                  [Max (set (roi_index s)) + 1..<
                   Max (set (roi_index s)) + 1
                     + length (filter (\<lambda>b. b) (map (\<lambda>n. max_missing s < n) (n_missing s)))])
               \<and> roi s' = rs"
    and un: "\<not> targeted \<Longrightarrow> temp_roi_dict s' = d \<and> roi s' = rs
        \<and> mz_mean s' = bool_index (map Not (map (\<lambda>n. max_missing s < n) (n_missing s))) (mz_mean s)
        \<and> n_missing s' = bool_index (map Not (map (\<lambda>n. max_missing s < n) (n_missing s))) (n_missing s)
        \<and> length_arr s' = bool_index (map Not (map (\<lambda>n. max_missing s < n) (n_missing s))) (length_arr s)
        \<and> roi_index s' = bool_index (map Not (map (\<lambda>n. max_missing s < n) (n_missing s))) (roi_index s)
        \<and> max_intensity s' = bool_index (map Not (map (\<lambda>n. max_missing s < n) (n_missing s))) (max_intensity s)"
    by (rule append_to_roi_cases) simp_all
  note cl = completed_loop_Inr [OF loop]
  have lens: "length (mz_mean s) = length (n_missing s)" "length (roi_index s) = length (n_missing s)"
    "length (length_arr s) = length (n_missing s)" "length (max_intensity s) = length (n_missing s)"
    using sl by (simp_all add: same_length_def)
  have vf: "filter (\<lambda>i. ?valid ! i) ?C = filter (valid_trace s) ?C"
    by (rule filter_cong) (use is_valid_roi_nth [OF sl] set_completed_positions in auto)
  have rs: "roi s' = rs" using tg un by (cases targeted) simp_all
  have 1: "\<not> targeted \<longrightarrow>
            mz_mean s' = map (\<lambda>i. mz_mean s ! i) (open_positions s)
          \<and> roi_index s' = map (\<lambda>i. roi_index s ! i) (open_positions s)
          \<and> n_missing s' = map (\<lambda>i. n_missing s ! i) (open_positions s)
          \<and> length_arr s' = map (\<lambda>i. length_arr s ! i) (open_positions s)
          \<and> max_intensity s' = map (\<lambda>i. max_intensity s ! i) (open_positions s)"
  proof (intro impI)
    assume "\<not> targeted"
    from un [OF this]
    show "mz_mean s' = map (\<lambda>i. mz_mean s ! i) (open_positions s)
          \<and> roi_index s' = map (\<lambda>i. roi_index s ! i) (open_positions s)
          \<and> n_missing s' = map (\<lambda>i. n_missing s ! i) (open_positions s)
          \<and> length_arr s' = map (\<lambda>i. length_arr s ! i) (open_positions s)
          \<and> max_intensity s' = map (\<lambda>i. max_intensity s ! i) (open_positions s)"
      by (simp only: bool_index_open [OF lens(1)] bool_index_open [OF lens(2)]
            bool_index_open [OF lens(3)] bool_index_open [OF lens(4)]
            bool_index_open [OF refl])
  qed
  have 2: "roi s' = roi s @ map (\<lambda>i. projr (tmp_roi_to_roi (the (temp_roi_dict s (roi_index s ! i)))
                                   rt (mode s)))
                        (filter (valid_trace s) ?C)"
    using cl rs vf by simp
  have 3: "\<forall>i \<in> set ?C. valid_trace s i \<longrightarrow>
          \<not> isl (tmp_roi_to_roi (the (temp_roi_dict s (roi_index s ! i))) rt (mode s))"
    using cl is_valid_roi_nth [OF sl] set_completed_positions by auto
  have dC: "d (roi_index s ! i) = None" if "i \<in> set ?C" for i
    using cl that by auto
  have inr: "roi_index s ! i \<in> set (roi_index s)" if "i < length (n_missing s)" for i
    using that lens by simp
  have dict: "temp_roi_dict s' k = d k" if "k \<in> set (roi_index s)" for k
  proof (cases targeted)
    case True
    have "temp_roi_dict s' = d ++ map_of (map (\<lambda>k. (k, make_empty_temp_roi))
                  [Max (set (roi_index s)) + 1..<
                   Max (set (roi_index s)) + 1
                     + length (filter (\<lambda>b. b) (map (\<lambda>n. max_missing s < n) (n_missing s)))])"
      using tg [OF True] by (rule conjunct1)
    then show ?thesis
      using fresh_keys_map_add [OF that] by (simp only:)
  next
    case False
    then show ?thesis using un by simp
  qed
  have 4: "\<forall>i \<in> set ?C. temp_roi_dict s' (roi_index s ! i) = None"
  proof
    fix i assume i: "i \<in> set ?C"
    have "roi_index s ! i \<in> set (roi_index s)"
      using inr set_completed_positions [OF i] by simp
    from dict [OF this] dC [OF i]
    show "temp_roi_dict s' (roi_index s ! i) = None" by simp
  qed
  have 5: "\<forall>i \<in> set (open_positions s).
            temp_roi_dict s' (roi_index s ! i) = temp_roi_dict s (roi_index s ! i)"
    if dist: "distinct (roi_index s)"
  proof
    fix i assume i: "i \<in> set (open_positions s)"
    then have il: "i < length (n_missing s)" and io: "\<not> max_missing s < n_missing s ! i"
      by (simp_all add: open_positions_def)
    have "roi_index s ! i \<notin> (\<lambda>j. roi_index s ! j) ` set ?C"
    proof
      assume "roi_index s ! i \<in> (\<lambda>j. roi_index s ! j) ` set ?C"
      then obtain j where j: "j \<in> set ?C" "roi_index s ! i = roi_index s ! j" by auto
      then have "j < length (roi_index s)" "max_missing s < n_missing s ! j"
        using lens by (simp_all add: completed_positions_def)
      with j(2) dist il lens have "i = j" by (simp add: nth_eq_iff_index_eq)
      with io \<open>max_missing s < n_missing s ! j\<close> show False by simp
    qed
    then have dk: "d (roi_index s ! i) = temp_roi_dict s (roi_index s ! i)"
      using cl by simp
    from dict [OF inr [OF il]] dk
    show "temp_roi_dict s' (roi_index s ! i) = temp_roi_dict s (roi_index s ! i)" by simp
  qed
  from 1 2 3 4 5 show ?thesis by blast
qed

subsection \<open>Targeted mode\<close>

lemma length_mask_assign [simp]: "length (mask_assign xs bs vals) = length xs"
  by (induction xs bs vals rule: mask_assign.induct) (auto split: list.splits)

lemma mask_assign_nth:
  "i < length xs \<Longrightarrow> length bs = length xs \<Longrightarrow> length (filter (\<lambda>b. b) bs) \<le> length vals \<Longrightarrow>
   mask_assign xs bs vals ! i
     = (if bs ! i then vals ! length (filter (\<lambda>b. b) (take i bs)) else xs ! i)"
proof (induction xs bs vals arbitrary: i rule: mask_assign.induct)
  case (1 x xs b bs vals)
  show ?case
  proof (cases i)
    case 0
    with 1 show ?thesis by (auto split: list.splits)
  next
    case (Suc k)
    show ?thesis
    proof (cases b)
      case True
      with "1.prems" obtain v vs where v: "vals = v # vs" by (cases vals) auto
      with 1 True Suc show ?thesis by simp
    next
      case False
      with 1 Suc show ?thesis by simp
    qed
  qed
qed simp_all

lemma length_mask_fill: "length msk = length xs \<Longrightarrow> length (mask_fill xs msk v) = length xs"
  by (simp add: mask_fill_def)

lemma mask_fill_nth:
  "i < length xs \<Longrightarrow> length msk = length xs \<Longrightarrow>
   mask_fill xs msk v ! i = (if msk ! i then v else xs ! i)"
  by (simp add: mask_fill_def)

lemma count_true_before:
  "i \<le> length ns \<Longrightarrow>
   length (filter (\<lambda>b. b) (take i (map f ns))) = length (filter (\<lambda>j. f (ns ! j)) [0..<i])"
proof (induction i)
  case 0
  then show ?case by simp
next
  case (Suc i)
  then have "take (Suc i) (map f ns) = take i (map f ns) @ [f (ns ! i)]"
    by (simp add: take_Suc_conv_app_nth)
  with Suc show ?case by simp
qed


lemma add_Inr_match:
  assumes "add fc s mz sp targeted = Inr s'"
  obtains match_index mz_match sp_match mz_no_match sp_no_match d where
    "match_mz fc (mz_mean s) mz sp (tolerance s) (multiple_match s)
        (mz_reduce_fn s) (spint_reduce_fn s)
       = Inr (match_index, mz_match, sp_match, mz_no_match, sp_no_match)"
    and "append_samples (roi_index s) (index s)
            (zip match_index (zip mz_match sp_match)) (temp_roi_dict s) = Inr d"
proof -
  let ?m = "match_mz fc (mz_mean s) mz sp (tolerance s) (multiple_match s)
        (mz_reduce_fn s) (spint_reduce_fn s)"
  from assms obtain r where r: "?m = Inr r"
    by (cases ?m) (simp_all add: add_def)
  obtain mi mzm spm mnm snm where t: "r = (mi, mzm, spm, mnm, snm)"
    by (cases r) auto
  let ?a = "append_samples (roi_index s) (index s) (zip mi (zip mzm spm)) (temp_roi_dict s)"
  from assms r t obtain d where d: "?a = Inr d"
    by (cases ?a) (simp_all add: add_def)
  from r t d that show ?thesis by simp
qed

lemma add_targeted_Inr:
  assumes "add fc s mz sp True = Inr s'"
  shows "mz_mean s' = mz_mean s \<and> roi_index s' = roi_index s
    \<and> length (n_missing s') = length (n_missing s)
    \<and> length (length_arr s') = length (length_arr s)
    \<and> length (max_intensity s') = length (max_intensity s)"
  using assms
proof (rule add_Inr_match)
  fix mi mzm spm mnm snm d
  assume "match_mz fc (mz_mean s) mz sp (tolerance s) (multiple_match s)
        (mz_reduce_fn s) (spint_reduce_fn s) = Inr (mi, mzm, spm, mnm, snm)"
    and "append_samples (roi_index s) (index s) (zip mi (zip mzm spm)) (temp_roi_dict s) = Inr d"
  with assms show ?thesis by (auto simp: add_def Let_def)
qed

lemma extend_same_length: "extend s mz sp = Inr s' \<Longrightarrow> same_length s'"
  by (auto simp: extend_def Let_def same_length_def gather_def split: if_splits)

lemma add_untargeted_Inr:
  assumes "add fc s mz sp False = Inr s'"
  obtains match_index mz_match sp_match mz_no_match sp_no_match d s2 where
    "match_mz fc (mz_mean s) mz sp (tolerance s) (multiple_match s)
        (mz_reduce_fn s) (spint_reduce_fn s)
       = Inr (match_index, mz_match, sp_match, mz_no_match, sp_no_match)"
    and "append_samples (roi_index s) (index s)
            (zip match_index (zip mz_match sp_match)) (temp_roi_dict s) = Inr d"
    and "extend (s\<lparr>temp_roi_dict := d,
            length_arr := scatter (length_arr s) match_index
                            (map (\<lambda>l. l + 1) (gather (length_arr s) match_index)),
            n_missing := scatter (map (\<lambda>n. n + 1) (n_missing s)) match_index
                           (map (\<lambda>_. 0) match_index),
            max_intensity := scatter (max_intensity s) match_index
                               (map2 max (gather (max_intensity s) match_index) sp_match),
            mz_mean := scatter (mz_mean s) match_index
               (map2 (\<lambda>(m, l) z. (m * real_of_int l + z) / real_of_int (l + 1))
                  (zip (gather (mz_mean s) match_index) (gather (length_arr s) match_index))
                  mz_match)\<rparr>)
          mz_no_match sp_no_match = Inr s2"
    and "s' = s2\<lparr>index := index s2 + 1\<rparr>"
  using assms
proof (rule add_Inr_match)
  fix mi mzm spm mnm snm d
  assume m: "match_mz fc (mz_mean s) mz sp (tolerance s) (multiple_match s)
        (mz_reduce_fn s) (spint_reduce_fn s) = Inr (mi, mzm, spm, mnm, snm)"
    and a: "append_samples (roi_index s) (index s) (zip mi (zip mzm spm)) (temp_roi_dict s)
        = Inr d"
  let ?e = "extend (s\<lparr>temp_roi_dict := d,
            length_arr := scatter (length_arr s) mi
                            (map (\<lambda>l. l + 1) (gather (length_arr s) mi)),
            n_missing := scatter (map (\<lambda>n. n + 1) (n_missing s)) mi
                           (map (\<lambda>_. 0) mi),
            max_intensity := scatter (max_intensity s) mi
                               (map2 max (gather (max_intensity s) mi) spm),
            mz_mean := scatter (mz_mean s) mi
               (map2 (\<lambda>(m, l) z. (m * real_of_int l + z) / real_of_int (l + 1))
                  (zip (gather (mz_mean s) mi) (gather (length_arr s) mi))
                  mzm)\<rparr>)
          mnm snm"
  from assms m a obtain s2 where e: "?e = Inr s2"
    by (cases ?e) (simp_all add: add_def Let_def)
  from assms m a e have "s' = s2\<lparr>index := index s2 + 1\<rparr>"
    by (simp add: add_def Let_def)
  with m a e that show ?thesis by blast
qed


lemma add_same_length:
  assumes "same_length s" "add fc s mz sp targeted = Inr s'"
  shows "same_length s'"
proof (cases targeted)
  case True
  with assms add_targeted_Inr [of fc s mz sp s'] show ?thesis
    by (simp add: same_length_def)
next
  case False
  with assms(2) obtain s0 mnm snm s2 where "extend s0 mnm snm = Inr s2"
    "s' = s2\<lparr>index := index s2 + 1\<rparr>"
    by (auto elim: add_untargeted_Inr)
  then show ?thesis using extend_same_length [of s0 mnm snm s2] by (simp add: same_length_def)
qed

lemma filter_upt_count_less:
  assumes "i < n" "P i"
  shows "length (filter P [0..<i]) < length (filter P [0..<n])"
proof -
  have "[0..<i + (n - i)] = [0..<i] @ [i..<i + (n - i)]"
    by (rule upt_add_eq_append) simp
  moreover have "i + (n - i) = n" using assms(1) by simp
  ultimately have "[0..<n] = [0..<i] @ [i..<n]" by simp
  moreover have "[i..<n] = i # [Suc i..<n]" using assms(1) by (rule upt_conv_Cons)
  ultimately have "filter P [0..<n] = filter P [0..<i] @ filter P (i # [Suc i..<n])"
    by (metis filter_append)
  then show ?thesis using assms(2) by simp
qed

lemma map_of_const_keys: "k \<in> set ks \<Longrightarrow> map_of (map (\<lambda>k. (k, v)) ks) k = Some v"
  by (induction ks) auto

lemma append_to_roi_targeted_Inr:
  assumes sl: "same_length s" and ok: "append_to_roi s rt True = Inr s'"
  shows "same_length s' \<and> mz_mean s' = mz_mean s
    \<and> (\<forall>i \<in> set (completed_positions s).
          n_missing s' ! i = 0 \<and> length_arr s' ! i = 0 \<and> max_intensity s' ! i = 0
        \<and> roi_index s' ! i = Max (set (roi_index s)) + 1
             + length (filter (\<lambda>j. max_missing s < n_missing s ! j) [0..<i])
        \<and> temp_roi_dict s' (roi_index s' ! i) = Some make_empty_temp_roi)
    \<and> (\<forall>i \<in> set (open_positions s).
          n_missing s' ! i = n_missing s ! i \<and> length_arr s' ! i = length_arr s ! i
        \<and> max_intensity s' ! i = max_intensity s ! i \<and> roi_index s' ! i = roi_index s ! i)"
proof -
  let ?msk = "map (\<lambda>n. max_missing s < n) (n_missing s)"
  let ?m = "Max (set (roi_index s))"
  let ?c = "length (filter (\<lambda>b. b) ?msk)"
  let ?new = "[?m + 1..<?m + 1 + ?c]"
  have "\<exists>d rs. s' = s\<lparr>temp_roi_dict := d ++ map_of (map (\<lambda>k. (k, make_empty_temp_roi)) ?new),
           roi := rs,
           n_missing := mask_fill (n_missing s) ?msk 0,
           length_arr := mask_fill (length_arr s) ?msk 0,
           max_intensity := mask_fill (max_intensity s) ?msk 0,
           roi_index := mask_assign (roi_index s) ?msk ?new\<rparr>"
    using ok
  proof (rule append_to_roi_cases)
    fix d rs
    assume "True \<Longrightarrow> s' = s\<lparr>temp_roi_dict := d ++ map_of (map (\<lambda>k. (k, make_empty_temp_roi)) ?new),
           roi := rs,
           n_missing := mask_fill (n_missing s) ?msk 0,
           length_arr := mask_fill (length_arr s) ?msk 0,
           max_intensity := mask_fill (max_intensity s) ?msk 0,
           roi_index := mask_assign (roi_index s) ?msk ?new\<rparr>"
    from this [OF TrueI] show ?thesis by (intro exI)
  qed
  then obtain d rs where
    s': "s' = s\<lparr>temp_roi_dict := d ++ map_of (map (\<lambda>k. (k, make_empty_temp_roi)) ?new),
           roi := rs,
           n_missing := mask_fill (n_missing s) ?msk 0,
           length_arr := mask_fill (length_arr s) ?msk 0,
           max_intensity := mask_fill (max_intensity s) ?msk 0,
           roi_index := mask_assign (roi_index s) ?msk ?new\<rparr>"
    by (elim exE)
  have lens: "length (mz_mean s) = length (n_missing s)" "length (roi_index s) = length (n_missing s)"
    "length (length_arr s) = length (n_missing s)" "length (max_intensity s) = length (n_missing s)"
    using sl by (simp_all add: same_length_def)
  have f: "n_missing s' = mask_fill (n_missing s) ?msk 0"
    "length_arr s' = mask_fill (length_arr s) ?msk 0"
    "max_intensity s' = mask_fill (max_intensity s) ?msk 0"
    "roi_index s' = mask_assign (roi_index s) ?msk ?new"
    "temp_roi_dict s' = d ++ map_of (map (\<lambda>k. (k, make_empty_temp_roi)) ?new)"
    by (simp_all add: s')
  have 2: "mz_mean s' = mz_mean s" by (simp add: s')
  have lm: "length ?msk = length (n_missing s)" by simp
  have 1: "same_length s'"
    unfolding same_length_def f(1-4) 2
    using lens lm by (simp only: length_mask_fill length_mask_assign simp_thms)
  have cnt: "length (filter (\<lambda>b. b) (take i ?msk))
               = length (filter (\<lambda>j. max_missing s < n_missing s ! j) [0..<i])"
    if "i \<le> length (n_missing s)" for i
    using count_true_before [OF that, of "\<lambda>n. max_missing s < n"] .
  have ri: "roi_index s' ! i = (if max_missing s < n_missing s ! i
              then ?m + 1 + length (filter (\<lambda>j. max_missing s < n_missing s ! j) [0..<i])
              else roi_index s ! i)"
    if i: "i < length (n_missing s)" for i
  proof -
    have lt: "length (filter (\<lambda>b. b) (take i ?msk)) < ?c" if "max_missing s < n_missing s ! i"
    proof -
      have "?c = length (filter (\<lambda>j. max_missing s < n_missing s ! j) [0..<length (n_missing s)])"
        using cnt [of "length (n_missing s)"] by simp
      moreover have "length (filter (\<lambda>b. b) (take i ?msk))
          = length (filter (\<lambda>j. max_missing s < n_missing s ! j) [0..<i])"
        using cnt [of i] i by simp
      ultimately show ?thesis
        using filter_upt_count_less [of i "length (n_missing s)" "\<lambda>j. max_missing s < n_missing s ! j"]
          i that by simp
    qed
    have a: "i < length (roi_index s)" using i lens by simp
    have b: "length ?msk = length (roi_index s)" using lens by simp
    have "length ?new = ?c" by (simp only: length_upt add_diff_cancel_left')
    then have c: "?c \<le> length ?new" by (simp only: le_refl)
    have ma: "mask_assign (roi_index s) ?msk ?new ! i
        = (if ?msk ! i then ?new ! length (filter (\<lambda>b. b) (take i ?msk)) else roi_index s ! i)"
      by (rule mask_assign_nth [OF a b c])
    note rs' = f(4)
    have mi: "?msk ! i = (max_missing s < n_missing s ! i)" using i by simp
    show ?thesis
    proof (cases "max_missing s < n_missing s ! i")
      case True
      have "?m + 1 + length (filter (\<lambda>b. b) (take i ?msk)) < ?m + 1 + ?c"
        using lt [OF True] by simp
      then have "?new ! length (filter (\<lambda>b. b) (take i ?msk))
          = ?m + 1 + length (filter (\<lambda>b. b) (take i ?msk))"
        by (rule nth_upt)
      also have "\<dots> = ?m + 1 + length (filter (\<lambda>j. max_missing s < n_missing s ! j) [0..<i])"
        using cnt [of i] i by simp
      finally show ?thesis using True ma mi by (simp only: rs' if_True)
    next
      case False
      then show ?thesis using ma mi by (simp only: rs' if_False)
    qed
  qed
  have 3: "\<forall>i \<in> set (completed_positions s).
          n_missing s' ! i = 0 \<and> length_arr s' ! i = 0 \<and> max_intensity s' ! i = 0
        \<and> roi_index s' ! i = ?m + 1
             + length (filter (\<lambda>j. max_missing s < n_missing s ! j) [0..<i])
        \<and> temp_roi_dict s' (roi_index s' ! i) = Some make_empty_temp_roi"
  proof
    fix i assume "i \<in> set (completed_positions s)"
    then have i: "i < length (n_missing s)" and c: "max_missing s < n_missing s ! i"
      by (simp_all add: completed_positions_def)
    have r: "roi_index s' ! i = ?m + 1
        + length (filter (\<lambda>j. max_missing s < n_missing s ! j) [0..<i])"
      using ri [OF i] c by simp
    have "length (filter (\<lambda>j. max_missing s < n_missing s ! j) [0..<i]) < ?c"
    proof -
      have "?c = length (filter (\<lambda>j. max_missing s < n_missing s ! j) [0..<length (n_missing s)])"
        using cnt [of "length (n_missing s)"] by simp
      then show ?thesis
        using filter_upt_count_less [of i "length (n_missing s)" "\<lambda>j. max_missing s < n_missing s ! j"]
          i c by simp
    qed
    then have "?m + 1 \<le> roi_index s' ! i \<and> roi_index s' ! i < ?m + 1 + ?c"
      using r by arith
    then have "roi_index s' ! i \<in> {?m + 1..<?m + 1 + ?c}"
      by (simp only: atLeastLessThan_iff)
    then have "roi_index s' ! i \<in> set ?new" by (simp only: set_upt)
    then have "map_of (map (\<lambda>k. (k, make_empty_temp_roi)) ?new) (roi_index s' ! i)
        = Some make_empty_temp_roi"
      by (rule map_of_const_keys)
    then have t: "temp_roi_dict s' (roi_index s' ! i) = Some make_empty_temp_roi"
      unfolding f(5) by (rule map_add_find_right)
    have il: "i < length (length_arr s)" "i < length (max_intensity s)"
      "length ?msk = length (length_arr s)" "length ?msk = length (max_intensity s)"
      using i lens by simp_all
    have mi: "?msk ! i" using i c by simp
    have "n_missing s' ! i = 0" "length_arr s' ! i = 0" "max_intensity s' ! i = 0"
      unfolding f(1-3)
      using mask_fill_nth [OF i lm, of 0] mask_fill_nth [OF il(1) il(3), of 0]
        mask_fill_nth [OF il(2) il(4), of 0] mi
      by simp_all
    with r t show "n_missing s' ! i = 0 \<and> length_arr s' ! i = 0 \<and> max_intensity s' ! i = 0
        \<and> roi_index s' ! i = ?m + 1
             + length (filter (\<lambda>j. max_missing s < n_missing s ! j) [0..<i])
        \<and> temp_roi_dict s' (roi_index s' ! i) = Some make_empty_temp_roi"
      by (simp only: simp_thms)
  qed
  have 4: "\<forall>i \<in> set (open_positions s).
          n_missing s' ! i = n_missing s ! i \<and> length_arr s' ! i = length_arr s ! i
        \<and> max_intensity s' ! i = max_intensity s ! i \<and> roi_index s' ! i = roi_index s ! i"
  proof
    fix i assume "i \<in> set (open_positions s)"
    then have i: "i < length (n_missing s)" and c: "\<not> max_missing s < n_missing s ! i"
      by (simp_all add: open_positions_def)
    have il: "i < length (length_arr s)" "i < length (max_intensity s)"
      "length ?msk = length (length_arr s)" "length ?msk = length (max_intensity s)"
      using i lens by simp_all
    have mi: "\<not> ?msk ! i" using i c by simp
    have "n_missing s' ! i = n_missing s ! i" "length_arr s' ! i = length_arr s ! i"
      "max_intensity s' ! i = max_intensity s ! i"
      unfolding f(1-3)
      using mask_fill_nth [OF i lm, of 0] mask_fill_nth [OF il(1) il(3), of 0]
        mask_fill_nth [OF il(2) il(4), of 0] mi
      by simp_all
    with ri [OF i] c
    show "n_missing s' ! i = n_missing s ! i \<and> length_arr s' ! i = length_arr s ! i
        \<and> max_intensity s' ! i = max_intensity s ! i \<and> roi_index s' ! i = roi_index s ! i"
      by (simp only: if_False simp_thms)
  qed
  show ?thesis by (rule conjI [OF 1 conjI [OF 2 conjI [OF 3 4]]])
qed

lemma append_to_roi_same_length:
  assumes sl: "same_length s" and ok: "append_to_roi s rt targeted = Inr s'"
  shows "same_length s'"
proof (cases targeted)
  case True
  with append_to_roi_targeted_Inr [OF sl] ok show ?thesis by simp
next
  case False
  let ?nm = "map Not (map (\<lambda>n. max_missing s < n) (n_missing s))"
  from ok show ?thesis
  proof (rule append_to_roi_cases)
    fix d rs
    assume "\<not> targeted \<Longrightarrow> s' = s\<lparr>temp_roi_dict := d, roi := rs,
           mz_mean := bool_index ?nm (mz_mean s),
           n_missing := bool_index ?nm (n_missing s),
           length_arr := bool_index ?nm (length_arr s),
           roi_index := bool_index ?nm (roi_index s),
           max_intensity := bool_index ?nm (max_intensity s)\<rparr>"
    from this [OF False] have
      m: "mz_mean s' = bool_index ?nm (mz_mean s)"
      and r: "roi_index s' = bool_index ?nm (roi_index s)"
      and n: "n_missing s' = bool_index ?nm (n_missing s)"
      and l: "length_arr s' = bool_index ?nm (length_arr s)"
      and x: "max_intensity s' = bool_index ?nm (max_intensity s)"
      by simp_all
    have "length (roi_index s) = length (mz_mean s)" "length (n_missing s) = length (mz_mean s)"
      "length (max_intensity s) = length (mz_mean s)" "length (length_arr s) = length (mz_mean s)"
      using sl by (simp_all add: same_length_def)
    then show "same_length s'"
      unfolding same_length_def m r n l x
      by (simp only: length_bool_index [of "roi_index s" "mz_mean s"]
            length_bool_index [of "n_missing s" "mz_mean s"]
            length_bool_index [of "max_intensity s" "mz_mean s"]
            length_bool_index [of "length_arr s" "mz_mean s"] simp_thms)
  qed
qed

lemma append_to_roi_targeted_mz_mean:
  assumes "append_to_roi s rt True = Inr s'"
  shows "mz_mean s' = mz_mean s"
  using assms
proof (rule append_to_roi_cases)
  fix d rs
  let ?msk = "map (\<lambda>n. max_missing s < n) (n_missing s)"
  let ?new = "[Max (set (roi_index s)) + 1..<
              Max (set (roi_index s)) + 1 + length (filter (\<lambda>b. b) ?msk)]"
  assume "True \<Longrightarrow> s' = s\<lparr>temp_roi_dict := d ++ map_of (map (\<lambda>k. (k, make_empty_temp_roi)) ?new),
           roi := rs,
           n_missing := mask_fill (n_missing s) ?msk 0,
           length_arr := mask_fill (length_arr s) ?msk 0,
           max_intensity := mask_fill (max_intensity s) ?msk 0,
           roi_index := mask_assign (roi_index s) ?msk ?new\<rparr>"
  from this [OF TrueI] show ?thesis by simp
qed

lemma RoiProcessor_init_Inr:
  assumes "RoiProcessor_init mz_seed mm ml mi tol pol mzr spr md = Inr s"
  shows "same_length s \<and> mz_mean s = items mz_seed
    \<and> roi_index s = [0..<length (items mz_seed)]"
  using assms by (auto simp: RoiProcessor_init_def Let_def same_length_def split: if_splits)

lemma scan_loop_targeted_slots:
  "same_length s \<Longrightarrow> scan_loop fc msexp start True ks s rt = Inr (s', rt') \<Longrightarrow>
   same_length s' \<and> mz_mean s' = mz_mean s"
proof (induction ks arbitrary: s rt)
  case Nil
  then show ?case by simp
next
  case (Cons k ks)
  from Cons.prems(2) obtain spc where g: "getSpectrum msexp k = Inr spc"
    by (cases "getSpectrum msexp k") simp_all
  from Cons.prems(2) g obtain p1 where
    a: "add fc s (peaks_mz spc) (peaks_int spc) True = Inr p1"
    by (cases "add fc s (peaks_mz spc) (peaks_int spc) True") (simp_all add: Let_def)
  from Cons.prems(2) g a obtain p2 where
    b: "append_to_roi p1 (rt[k - start := getRT spc]) True = Inr p2"
    by (cases "append_to_roi p1 (rt[k - start := getRT spc]) True") (simp_all add: Let_def)
  from Cons.prems(2) g a b have
    c: "scan_loop fc msexp start True ks p2 (rt[k - start := getRT spc]) = Inr (s', rt')"
    by (simp add: Let_def split: if_splits)
  have "same_length p1" using add_same_length [OF Cons.prems(1) a] .
  moreover have "mz_mean p1 = mz_mean s" using add_targeted_Inr [OF a] by simp
  moreover have "same_length p2" using append_to_roi_same_length [OF \<open>same_length p1\<close> b] .
  moreover have "mz_mean p2 = mz_mean p1" using append_to_roi_targeted_mz_mean [OF b] .
  ultimately show ?case using Cons.IH [OF _ c] by simp
qed

text \<open>
  C6. In targeted mode the number of slots never changes. The constructor makes one slot
  for each element of the seed, with the five arrays of the same length. A targeted
  \<^verbatim>\<open>add\<close> keeps the arrays' lengths, the means and the identities: no trace is
  spawned. A targeted finalize pass keeps the lengths and the means; each completed slot
  has its \<^verbatim>\<open>n_missing\<close>, \<^verbatim>\<open>length\<close> and \<^verbatim>\<open>max_intensity\<close> set to zero and receives
  the next unused identity (above every identity of the pass's start, in the order of the
  slots), under which the dictionary holds an empty record; the other slots are left as
  they are. So the loop of the driver over any list of scans keeps the lengths and the
  means.
\<close>

theorem targeted_slot_count_fixed:
  "(RoiProcessor_init mz_seed mm ml mi tol pol mzr spr md = Inr s0 \<longrightarrow>
       same_length s0 \<and> length (mz_mean s0) = length (items mz_seed))
   \<and> (same_length s \<and> add fc s mz sp True = Inr s1 \<longrightarrow>
       same_length s1 \<and> mz_mean s1 = mz_mean s \<and> roi_index s1 = roi_index s)
   \<and> (same_length s \<and> append_to_roi s rt True = Inr s2 \<longrightarrow>
       same_length s2 \<and> mz_mean s2 = mz_mean s
       \<and> (\<forall>i \<in> set (completed_positions s).
             n_missing s2 ! i = 0 \<and> length_arr s2 ! i = 0 \<and> max_intensity s2 ! i = 0
           \<and> roi_index s2 ! i = Max (set (roi_index s)) + 1
                + length (filter (\<lambda>j. max_missing s < n_missing s ! j) [0..<i])
           \<and> temp_roi_dict s2 (roi_index s2 ! i) = Some make_empty_temp_roi)
       \<and> (\<forall>i \<in> set (open_positions s).
             n_missing s2 ! i = n_missing s ! i \<and> length_arr s2 ! i = length_arr s ! i
           \<and> max_intensity s2 ! i = max_intensity s ! i \<and> roi_index s2 ! i = roi_index s ! i))
   \<and> (same_length s \<and> scan_loop fc msexp start True ks s rt0 = Inr (sN, rtN) \<longrightarrow>
       same_length sN \<and> mz_mean sN = mz_mean s)"
proof -
  have A: "RoiProcessor_init mz_seed mm ml mi tol pol mzr spr md = Inr s0 \<longrightarrow>
       same_length s0 \<and> length (mz_mean s0) = length (items mz_seed)"
  proof
    assume "RoiProcessor_init mz_seed mm ml mi tol pol mzr spr md = Inr s0"
    from RoiProcessor_init_Inr [OF this]
    show "same_length s0 \<and> length (mz_mean s0) = length (items mz_seed)" by simp
  qed
  have B: "same_length s \<and> add fc s mz sp True = Inr s1 \<longrightarrow>
       same_length s1 \<and> mz_mean s1 = mz_mean s \<and> roi_index s1 = roi_index s"
  proof
    assume "same_length s \<and> add fc s mz sp True = Inr s1"
    then have h: "same_length s" "add fc s mz sp True = Inr s1" by simp_all
    from add_same_length [OF h] add_targeted_Inr [OF h(2)]
    show "same_length s1 \<and> mz_mean s1 = mz_mean s \<and> roi_index s1 = roi_index s" by simp
  qed
  have C: "same_length s \<and> append_to_roi s rt True = Inr s2 \<longrightarrow>
       same_length s2 \<and> mz_mean s2 = mz_mean s
       \<and> (\<forall>i \<in> set (completed_positions s).
             n_missing s2 ! i = 0 \<and> length_arr s2 ! i = 0 \<and> max_intensity s2 ! i = 0
           \<and> roi_index s2 ! i = Max (set (roi_index s)) + 1
                + length (filter (\<lambda>j. max_missing s < n_missing s ! j) [0..<i])
           \<and> temp_roi_dict s2 (roi_index s2 ! i) = Some make_empty_temp_roi)
       \<and> (\<forall>i \<in> set (open_positions s).
             n_missing s2 ! i = n_missing s ! i \<and> length_arr s2 ! i = length_arr s ! i
           \<and> max_intensity s2 ! i = max_intensity s ! i \<and> roi_index s2 ! i = roi_index s ! i)"
  proof
    assume "same_length s \<and> append_to_roi s rt True = Inr s2"
    then have h: "same_length s" "append_to_roi s rt True = Inr s2" by simp_all
    from append_to_roi_targeted_Inr [OF h]
    show "same_length s2 \<and> mz_mean s2 = mz_mean s
       \<and> (\<forall>i \<in> set (completed_positions s).
             n_missing s2 ! i = 0 \<and> length_arr s2 ! i = 0 \<and> max_intensity s2 ! i = 0
           \<and> roi_index s2 ! i = Max (set (roi_index s)) + 1
                + length (filter (\<lambda>j. max_missing s < n_missing s ! j) [0..<i])
           \<and> temp_roi_dict s2 (roi_index s2 ! i) = Some make_empty_temp_roi)
       \<and> (\<forall>i \<in> set (open_positions s).
             n_missing s2 ! i = n_missing s ! i \<and> length_arr s2 ! i = length_arr s ! i
           \<and> max_intensity s2 ! i = max_intensity s ! i \<and> roi_index s2 ! i = roi_index s ! i)" .
  qed
  have D: "same_length s \<and> scan_loop fc msexp start True ks s rt0 = Inr (sN, rtN) \<longrightarrow>
       same_length sN \<and> mz_mean sN = mz_mean s"
  proof
    assume "same_length s \<and> scan_loop fc msexp start True ks s rt0 = Inr (sN, rtN)"
    then have h: "same_length s" "scan_loop fc msexp start True ks s rt0 = Inr (sN, rtN)"
      by simp_all
    from scan_loop_targeted_slots [OF h]
    show "same_length sN \<and> mz_mean sN = mz_mean s" .
  qed
  show ?thesis by (rule conjI [OF A conjI [OF B conjI [OF C D]]])
qed

subsection \<open>The order of the means\<close>

lemma sorted_gather_argsort: "sorted (gather xs (np_argsort xs))"
  unfolding gather_def np_argsort_def by (rule sorted_sort_key)

lemma np_diff_Cons2: "np_diff (x # y # ys) = (y - x) # np_diff (y # ys)"
  by (simp add: np_diff_def)

lemma np_diff_sorted: "list_all (\<lambda>d. 0 \<le> d) (np_diff xs) \<longleftrightarrow> sorted xs"
proof (induction xs rule: induct_list012)
  case 1
  then show ?case by (simp add: np_diff_def)
next
  case (2 x)
  then show ?case by (simp add: np_diff_def)
next
  case (3 x y zs)
  have "(0 \<le> y - x) = (x \<le> y)" by simp
  then show ?case using 3(2) by (simp only: np_diff_Cons2 list.pred_inject sorted2)
qed

lemma extend_sorted: "extend s mz sp = Inr s' \<Longrightarrow> sorted (mz_mean s')"
  by (auto simp: extend_def Let_def sorted_gather_argsort split: if_splits)

lemma add_sorted:
  assumes "add fc s mz sp targeted = Inr s'" "targeted \<longrightarrow> sorted (mz_mean s)"
  shows "sorted (mz_mean s')"
proof (cases targeted)
  case True
  with assms add_targeted_Inr [of fc s mz sp s'] show ?thesis by simp
next
  case False
  with assms(1) obtain s0 mnm snm s2 where "extend s0 mnm snm = Inr s2"
    "s' = s2\<lparr>index := index s2 + 1\<rparr>"
    by (auto elim: add_untargeted_Inr)
  then show ?thesis using extend_sorted [of s0 mnm snm s2] by simp
qed

lemma append_to_roi_sorted:
  assumes ok: "append_to_roi s rt targeted = Inr s'" and so: "sorted (mz_mean s)"
  shows "sorted (mz_mean s')"
  using ok
proof (rule append_to_roi_cases)
  fix d rs
  let ?nm = "map Not (map (\<lambda>n. max_missing s < n) (n_missing s))"
  assume t: "targeted \<Longrightarrow> s' = s\<lparr>temp_roi_dict :=
             d ++ map_of (map (\<lambda>k. (k, make_empty_temp_roi))
                  [Max (set (roi_index s)) + 1..<
                   Max (set (roi_index s)) + 1
                     + length (filter (\<lambda>b. b) (map (\<lambda>n. max_missing s < n) (n_missing s)))]),
           roi := rs,
           n_missing := mask_fill (n_missing s) (map (\<lambda>n. max_missing s < n) (n_missing s)) 0,
           length_arr := mask_fill (length_arr s) (map (\<lambda>n. max_missing s < n) (n_missing s)) 0,
           max_intensity := mask_fill (max_intensity s) (map (\<lambda>n. max_missing s < n) (n_missing s)) 0,
           roi_index := mask_assign (roi_index s) (map (\<lambda>n. max_missing s < n) (n_missing s))
              [Max (set (roi_index s)) + 1..<
               Max (set (roi_index s)) + 1
                 + length (filter (\<lambda>b. b) (map (\<lambda>n. max_missing s < n) (n_missing s)))]\<rparr>"
  assume u: "\<not> targeted \<Longrightarrow> s' = s\<lparr>temp_roi_dict := d, roi := rs,
           mz_mean := bool_index ?nm (mz_mean s),
           n_missing := bool_index ?nm (n_missing s),
           length_arr := bool_index ?nm (length_arr s),
           roi_index := bool_index ?nm (roi_index s),
           max_intensity := bool_index ?nm (max_intensity s)\<rparr>"
  show "sorted (mz_mean s')"
  proof (cases targeted)
    case True
    from t [OF True] have "mz_mean s' = mz_mean s" by simp
    with so show ?thesis by simp
  next
    case False
    from u [OF False] have "mz_mean s' = bool_index ?nm (mz_mean s)" by simp
    with so show ?thesis by (simp only: sorted_bool_index)
  qed
qed


lemma scan_loop_sorted:
  "sorted (mz_mean s) \<Longrightarrow> scan_loop fc msexp start targeted ks s rt = Inr (s', rt') \<Longrightarrow>
   sorted (mz_mean s')"
proof (induction ks arbitrary: s rt)
  case Nil
  then show ?case by simp
next
  case (Cons k ks)
  from Cons.prems(2) obtain spc where g: "getSpectrum msexp k = Inr spc"
    by (cases "getSpectrum msexp k") simp_all
  from Cons.prems(2) g obtain p1 where
    a: "add fc s (peaks_mz spc) (peaks_int spc) targeted = Inr p1"
    by (cases "add fc s (peaks_mz spc) (peaks_int spc) targeted") (simp_all add: Let_def)
  from Cons.prems(2) g a obtain p2 where
    b: "append_to_roi p1 (rt[k - start := getRT spc]) targeted = Inr p2"
    by (cases "append_to_roi p1 (rt[k - start := getRT spc]) targeted") (simp_all add: Let_def)
  from Cons.prems(2) g a b have
    c: "scan_loop fc msexp start targeted ks p2 (rt[k - start := getRT spc]) = Inr (s', rt')"
    by (simp add: Let_def split: if_splits)
  have "sorted (mz_mean p1)" using add_sorted [OF a] Cons.prems(1) by simp
  then have "sorted (mz_mean p2)" using append_to_roi_sorted [OF b] by simp
  then show ?case using Cons.IH [OF _ c] by simp
qed

text \<open>
  C1. The array of means is non-decreasing after every scan. The constructor copies the
  seed, so an ascending seed gives an ascending array. After \<^verbatim>\<open>add\<close> the array is
  non-decreasing (in untargeted mode \<^verbatim>\<open>extend\<close> sorts it again; in targeted mode it is
  the array before the call, which is where the ascending seed is needed), and after the
  finalize pass that follows it still is, so the assertion of the driver holds. When the
  array after a scan is not non-decreasing, the loop of the driver ends with
  \<^verbatim>\<open>AssertionError\<close>. A loop that starts from an ascending array and returns, returns
  an ascending array.
\<close>

theorem mz_mean_sorted_after_every_scan:
  "(RoiProcessor_init mz_seed mm ml mi tol pol mzr spr md = Inr s0 \<and> sorted (items mz_seed) \<longrightarrow>
       sorted (mz_mean s0))
   \<and> ((targeted \<longrightarrow> sorted (mz_mean s)) \<and> add fc s mz sp targeted = Inr s1 \<longrightarrow>
       sorted (mz_mean s1)
       \<and> (append_to_roi s1 rt targeted = Inr s2 \<longrightarrow>
            sorted (mz_mean s2) \<and> list_all (\<lambda>d. 0 \<le> d) (np_diff (mz_mean s2))))
   \<and> (getSpectrum msexp k = Inr spc
        \<and> add fc s (peaks_mz spc) (peaks_int spc) targeted = Inr p1
        \<and> append_to_roi p1 (rt0[k - start := getRT spc]) targeted = Inr p2
        \<and> \<not> sorted (mz_mean p2) \<longrightarrow>
       scan_loop fc msexp start targeted (k # ks) s rt0 = Inl AssertionError)
   \<and> (sorted (mz_mean s) \<and> scan_loop fc msexp start targeted ks s rt0 = Inr (sN, rtN) \<longrightarrow>
       sorted (mz_mean sN))"
proof -
  have A: "RoiProcessor_init mz_seed mm ml mi tol pol mzr spr md = Inr s0 \<and> sorted (items mz_seed)
      \<longrightarrow> sorted (mz_mean s0)"
  proof
    assume h: "RoiProcessor_init mz_seed mm ml mi tol pol mzr spr md = Inr s0 \<and> sorted (items mz_seed)"
    then have "mz_mean s0 = items mz_seed" using RoiProcessor_init_Inr [of mz_seed] by blast
    with h show "sorted (mz_mean s0)" by simp
  qed
  have B: "(targeted \<longrightarrow> sorted (mz_mean s)) \<and> add fc s mz sp targeted = Inr s1 \<longrightarrow>
       sorted (mz_mean s1)
       \<and> (append_to_roi s1 rt targeted = Inr s2 \<longrightarrow>
            sorted (mz_mean s2) \<and> list_all (\<lambda>d. 0 \<le> d) (np_diff (mz_mean s2)))"
  proof
    assume "(targeted \<longrightarrow> sorted (mz_mean s)) \<and> add fc s mz sp targeted = Inr s1"
    then have h: "add fc s mz sp targeted = Inr s1" "targeted \<longrightarrow> sorted (mz_mean s)"
      by simp_all
    have s1: "sorted (mz_mean s1)" using add_sorted [OF h] .
    have "sorted (mz_mean s2) \<and> list_all (\<lambda>d. 0 \<le> d) (np_diff (mz_mean s2))"
      if "append_to_roi s1 rt targeted = Inr s2"
      using append_to_roi_sorted [OF that s1] by (simp add: np_diff_sorted)
    with s1 show "sorted (mz_mean s1)
       \<and> (append_to_roi s1 rt targeted = Inr s2 \<longrightarrow>
            sorted (mz_mean s2) \<and> list_all (\<lambda>d. 0 \<le> d) (np_diff (mz_mean s2)))"
      by blast
  qed
  have C: "getSpectrum msexp k = Inr spc
        \<and> add fc s (peaks_mz spc) (peaks_int spc) targeted = Inr p1
        \<and> append_to_roi p1 (rt0[k - start := getRT spc]) targeted = Inr p2
        \<and> \<not> sorted (mz_mean p2) \<longrightarrow>
       scan_loop fc msexp start targeted (k # ks) s rt0 = Inl AssertionError"
    by (simp add: Let_def np_diff_sorted)
  have D: "sorted (mz_mean s) \<and> scan_loop fc msexp start targeted ks s rt0 = Inr (sN, rtN) \<longrightarrow>
       sorted (mz_mean sN)"
    using scan_loop_sorted [of s fc msexp start targeted ks rt0 sN rtN] by blast
  show ?thesis by (rule conjI [OF A conjI [OF B conjI [OF C D]]])
qed

subsection \<open>The running mean\<close>

lemma np_unique_props:
  assumes "np_unique xs = (u, fi, cnt)"
  shows "distinct u \<and> sorted u \<and> set u = set xs \<and> length fi = length u \<and> length cnt = length u"
  using assms by (auto simp: np_unique_def Let_def)

lemma closest_loop_length:
  "closest_loop dmz_m mz_m sp_m it = Inr (rm, mzr, spr) \<Longrightarrow>
   length mzr = length it \<and> length spr = length it"
proof (induction it arbitrary: rm mzr spr)
  case Nil
  then show ?case by simp
next
  case (Cons a it)
  obtain fi ix cnt where a: "a = (fi, ix, cnt)" by (cases a) auto
  from Cons.prems obtain rm' mzr' spr' where
    r: "closest_loop dmz_m mz_m sp_m it = Inr (rm', mzr', spr')"
    and e: "mzr = mz_m ! (np_argmin (take cnt (drop ix dmz_m)) + ix) # mzr'"
      "spr = sp_m ! (np_argmin (take cnt (drop ix dmz_m)) + ix) # spr'"
    unfolding a
    by (cases "closest_loop dmz_m mz_m sp_m it")
       (auto simp: Let_def split: if_splits)
  from Cons.IH [OF r] e show ?case by simp
qed

lemma reduce_loop_length:
  "reduce_loop mzr spr mz_m sp_m it mzm spm = Inr (mzm', spm') \<Longrightarrow>
   length mzm' = length mzm \<and> length spm' = length spm"
proof (induction it arbitrary: mzm spm)
  case Nil
  then show ?case by simp
next
  case (Cons a it)
  obtain fi ix cnt where a: "a = (fi, ix, cnt)" by (cases a) auto
  from Cons.prems obtain x y where
    "reduce_loop mzr spr mz_m sp_m it (mzm[fi := x]) (spm[fi := y]) = Inr (mzm', spm')"
    unfolding a by (auto split: sum.splits)
  from Cons.IH [OF this] show ?case by simp
qed

lemma match_mz_Inr:
  assumes "match_mz fc mz1 mz2 sp2 tol md mzr spr = Inr (mi, mzm, spm, mnm, snm)"
  shows "distinct mi \<and> sorted mi \<and> (\<forall>k \<in> set mi. k < length mz1)
    \<and> length mzm = length mi \<and> length spm = length mi"
proof -
  from assms obtain ci where ci: "fc mz1 mz2 = Inr ci"
    by (cases "fc mz1 mz2") (simp_all add: match_mz_def)
  from assms ci have l1: "length ci = length mz2" and r: "\<forall>k \<in> set ci. k < length mz1"
    and l2: "length sp2 = length mz2"
    by (auto simp: match_mz_def split: if_splits)
  define msk where "msk = map (\<lambda>d. d \<le> tol) (map2 (\<lambda>k m. \<bar>mz1 ! k - m\<bar>) ci mz2)"
  obtain u fi cnt where un: "np_unique (bool_index msk ci) = (u, fi, cnt)"
    by (cases "np_unique (bool_index msk ci)") auto
  note up = np_unique_props [OF un]
  have su: "\<forall>k \<in> set u. k < length mz1"
    using up r set_bool_index [of msk ci] by auto
  have mi: "mi = u"
    using assms ci l1 r l2 un
    by (auto simp: match_mz_def Let_def msk_def split: if_splits sum.splits)
  have len: "length mzm = length u \<and> length spm = length u"
    using assms ci l1 r l2 un up
    by (auto simp: match_mz_def Let_def msk_def gather_def
             dest!: reduce_loop_length
             split: if_splits sum.splits)
  show ?thesis using up su mi len by simp
qed


lemma np_argsort_perm:
  "set (np_argsort xs) = {0..<length xs}" "distinct (np_argsort xs)"
  "length (np_argsort xs) = length xs"
  by (simp_all add: np_argsort_def)

lemma extend_Inr:
  assumes "extend s mz sp = Inr s'"
  shows "roi_index s \<noteq> []"
    and "roi_index s' = gather (roi_index s @ map (\<lambda>i. i + Max (set (roi_index s)) + 1) [0..<length mz])
                          (np_argsort (mz_mean s @ mz))"
    and "mz_mean s' = gather (mz_mean s @ mz) (np_argsort (mz_mean s @ mz))"
  using assms by (auto simp: extend_def Let_def split: if_splits)

lemma distinct_with_fresh:
  assumes "distinct (ridx :: nat list)"
  shows "distinct (ridx @ map (\<lambda>i. i + Max (set ridx) + 1) [0..<n])"
proof -
  have "distinct (map (\<lambda>i. i + Max (set ridx) + 1) [0..<n])"
    by (simp add: distinct_map inj_on_def)
  moreover have "set ridx \<inter> set (map (\<lambda>i. i + Max (set ridx) + 1) [0..<n]) = {}"
  proof (rule ccontr)
    assume "set ridx \<inter> set (map (\<lambda>i. i + Max (set ridx) + 1) [0..<n]) \<noteq> {}"
    then obtain k where k: "k \<in> set ridx" "k \<in> set (map (\<lambda>i. i + Max (set ridx) + 1) [0..<n])"
      by blast
    from k(2) obtain i where "k = i + Max (set ridx) + 1" by auto
    moreover have "k \<le> Max (set ridx)" using k(1) by simp
    ultimately show False by simp
  qed
  ultimately show ?thesis using assms by simp
qed

lemma extend_lookup:
  assumes ex: "extend s mz sp = Inr s'"
    and len: "length (roi_index s) = length (mz_mean s)"
    and dist: "distinct (roi_index s)"
    and k: "k < length (mz_mean s)"
  shows "map_of (zip (roi_index s') (mz_mean s')) (roi_index s ! k) = Some (mz_mean s ! k)"
proof -
  let ?A = "roi_index s @ map (\<lambda>i. i + Max (set (roi_index s)) + 1) [0..<length mz]"
  let ?B = "mz_mean s @ mz"
  let ?p = "np_argsort ?B"
  note e = extend_Inr [OF ex]
  have lA: "length ?A = length ?B" using len by simp
  have z: "zip (roi_index s') (mz_mean s') = map (\<lambda>i. (?A ! i, ?B ! i)) ?p"
    unfolding e(2,3) gather_def by (simp add: zip_map_map zip_same_conv_map)
  have kp: "k \<in> set ?p" using k by (simp add: np_argsort_perm)
  have "(?A ! k, ?B ! k) \<in> set (zip (roi_index s') (mz_mean s'))"
    unfolding z using kp by (simp add: image_iff) blast
  moreover have "?A ! k = roi_index s ! k" "?B ! k = mz_mean s ! k"
    using k len by (simp_all add: nth_append)
  ultimately have mem: "(roi_index s ! k, mz_mean s ! k) \<in> set (zip (roi_index s') (mz_mean s'))"
    by simp
  have "distinct (map (\<lambda>i. ?A ! i) ?p)"
  proof -
    have "inj_on (\<lambda>i. ?A ! i) (set ?p)"
      using distinct_with_fresh [OF dist, of "length mz"] lA
      by (intro inj_on_nth) (simp_all add: np_argsort_perm)
    then show ?thesis by (simp add: distinct_map np_argsort_perm)
  qed
  then have "distinct (map fst (zip (roi_index s') (mz_mean s')))"
    unfolding z by (simp add: comp_def)
  from map_of_is_SomeI [OF this mem] show ?thesis .
qed

text \<open>
  C3. Let the matcher assign to the trace at the position \<open>mi ! i\<close> the m/z value
  \<open>mzm ! i\<close>. After an untargeted \<^verbatim>\<open>add\<close> the trace with the identity of that position
  (the arrays are sorted again, so the position may change) has the mean
  \<open>(mean * length + mzm ! i) / (length + 1)\<close>, with the mean and the length of the trace
  before the call. A targeted \<^verbatim>\<open>add\<close> leaves the array of means as it is.
\<close>

theorem add_updates_running_mean:
  assumes sl: "same_length s" and dist: "distinct (roi_index s)"
    and m: "match_mz fc (mz_mean s) mz sp (tolerance s) (multiple_match s)
              (mz_reduce_fn s) (spint_reduce_fn s) = Inr (mi, mzm, spm, mnm, snm)"
    and i: "i < length mi"
  shows "(add fc s mz sp False = Inr s' \<longrightarrow>
            map_of (zip (roi_index s') (mz_mean s')) (roi_index s ! (mi ! i))
              = Some ((mz_mean s ! (mi ! i) * real_of_int (length_arr s ! (mi ! i)) + mzm ! i)
                       / real_of_int (length_arr s ! (mi ! i) + 1)))
       \<and> (add fc s mz sp True = Inr s'' \<longrightarrow> mz_mean s'' = mz_mean s)"
proof -
  note mp = match_mz_Inr [OF m]
  let ?upd = "map2 (\<lambda>(m, l) z. (m * real_of_int l + z) / real_of_int (l + 1))
                  (zip (gather (mz_mean s) mi) (gather (length_arr s) mi)) mzm"
  have k: "mi ! i < length (mz_mean s)" using mp i by simp
  have lu: "length ?upd = length mi" using mp by (simp add: gather_def)
  have ui: "?upd ! i = (mz_mean s ! (mi ! i) * real_of_int (length_arr s ! (mi ! i)) + mzm ! i)
                       / real_of_int (length_arr s ! (mi ! i) + 1)"
    using i mp by (simp add: gather_def)
  have sc: "scatter (mz_mean s) mi ?upd ! (mi ! i) = ?upd ! i"
    using mp i k lu by (intro nth_scatter_distinct) simp_all
  have A: "add fc s mz sp False = Inr s' \<longrightarrow>
            map_of (zip (roi_index s') (mz_mean s')) (roi_index s ! (mi ! i))
              = Some ((mz_mean s ! (mi ! i) * real_of_int (length_arr s ! (mi ! i)) + mzm ! i)
                       / real_of_int (length_arr s ! (mi ! i) + 1))"
  proof
    assume a: "add fc s mz sp False = Inr s'"
    from a show "map_of (zip (roi_index s') (mz_mean s')) (roi_index s ! (mi ! i))
              = Some ((mz_mean s ! (mi ! i) * real_of_int (length_arr s ! (mi ! i)) + mzm ! i)
                       / real_of_int (length_arr s ! (mi ! i) + 1))"
    proof (rule add_untargeted_Inr)
      fix mi' mzm' spm' mnm' snm' d s2
      assume m': "match_mz fc (mz_mean s) mz sp (tolerance s) (multiple_match s)
              (mz_reduce_fn s) (spint_reduce_fn s) = Inr (mi', mzm', spm', mnm', snm')"
      assume ex: "extend (s\<lparr>temp_roi_dict := d,
            length_arr := scatter (length_arr s) mi'
                            (map (\<lambda>l. l + 1) (gather (length_arr s) mi')),
            n_missing := scatter (map (\<lambda>n. n + 1) (n_missing s)) mi'
                           (map (\<lambda>_. 0) mi'),
            max_intensity := scatter (max_intensity s) mi'
                               (map2 max (gather (max_intensity s) mi') spm'),
            mz_mean := scatter (mz_mean s) mi'
               (map2 (\<lambda>(m, l) z. (m * real_of_int l + z) / real_of_int (l + 1))
                  (zip (gather (mz_mean s) mi') (gather (length_arr s) mi'))
                  mzm')\<rparr>)
          mnm' snm' = Inr s2"
      assume s': "s' = s2\<lparr>index := index s2 + 1\<rparr>"
      from m m' have eq: "mi' = mi" "mzm' = mzm" "spm' = spm" "mnm' = mnm" "snm' = snm"
        by simp_all
      let ?s1 = "s\<lparr>temp_roi_dict := d,
            length_arr := scatter (length_arr s) mi
                            (map (\<lambda>l. l + 1) (gather (length_arr s) mi)),
            n_missing := scatter (map (\<lambda>n. n + 1) (n_missing s)) mi
                           (map (\<lambda>_. 0) mi),
            max_intensity := scatter (max_intensity s) mi
                               (map2 max (gather (max_intensity s) mi) spm),
            mz_mean := scatter (mz_mean s) mi ?upd\<rparr>"
      have ex': "extend ?s1 mnm snm = Inr s2" using ex unfolding eq .
      have "map_of (zip (roi_index s2) (mz_mean s2)) (roi_index ?s1 ! (mi ! i))
          = Some (mz_mean ?s1 ! (mi ! i))"
        using sl dist k by (intro extend_lookup [OF ex']) (simp_all add: same_length_def)
      then show ?thesis using sc ui by (simp add: s')
    qed
  qed
  have B: "add fc s mz sp True = Inr s'' \<longrightarrow> mz_mean s'' = mz_mean s"
    using add_targeted_Inr [of fc s mz sp s''] by blast
  show ?thesis by (rule conjI [OF A B])
qed

end
